theory Spec2Isabelle
  imports Main "HOL-Library.Word" "HOL-Library.Sublist"
begin

section \<open>Platform parameters\<close>

text \<open>
  The program is compiled against the C library's headers. The macros it takes from
  \<^verbatim>\<open><termios.h>\<close> (the speed codes \<^verbatim>\<open>B4800\<close> ... \<^verbatim>\<open>B230400\<close> and the flag bits), the
  optional \<^verbatim>\<open>PATH_MAX\<close> of \<^verbatim>\<open><limits.h>\<close> and the build flag \<^verbatim>\<open>PLDM_SUPPORT\<close> are not
  part of the repository: they are the fields of a parameter \<open>K\<close> of the model. On Linux
  with the kernel's traditional encoding \<^verbatim>\<open>B115200\<close> is the code 4098; a C library that
  encodes a speed by its own number has \<^verbatim>\<open>B115200 = 115200\<close>. Both are instances.
\<close>

record platform =
  B4800 :: int
  B9600 :: int
  B19200 :: int
  B38400 :: int
  B57600 :: int
  B115200 :: int
  B230400 :: int
  PARENB :: "32 word"
  CSTOPB :: "32 word"
  CSIZE :: "32 word"
  CS8 :: "32 word"
  CRTSCTS :: "32 word"
  CREAD :: "32 word"
  CLOCAL :: "32 word"
  ICANON :: "32 word"
  ECHO :: "32 word"
  ECHOE :: "32 word"
  ISIG :: "32 word"
  IXON :: "32 word"
  IXOFF :: "32 word"
  IXANY :: "32 word"
  OPOST :: "32 word"
  PATH_MAX :: "nat option"
  PLDM_SUPPORT :: bool

text \<open>
  The values of \<^verbatim>\<open>asm-generic/termbits.h\<close> (octal there). Neither source file includes
  \<^verbatim>\<open><limits.h>\<close>; \<^verbatim>\<open>PATH_MAX\<close> is taken as not defined where \<^verbatim>\<open>config.h\<close> is read, so that
  the buffer of the path has the fallback size.
\<close>

definition linux_termbits :: platform where
  "linux_termbits =
     \<lparr>B4800 = 12, B9600 = 13, B19200 = 14, B38400 = 15,
      B57600 = 4097, B115200 = 4098, B230400 = 4099,
      PARENB = 256, CSTOPB = 64, CSIZE = 48, CS8 = 48, CRTSCTS = 2147483648,
      CREAD = 128, CLOCAL = 2048,
      ICANON = 2, ECHO = 8, ECHOE = 16, ISIG = 1,
      IXON = 1024, IXOFF = 4096, IXANY = 2048,
      OPOST = 1,
      PATH_MAX = None, PLDM_SUPPORT = False\<rparr>"

text \<open>\<^verbatim>\<open>config.h\<close>: \<^verbatim>\<open>SERIAL_PATH_MAX\<close> is \<^verbatim>\<open>PATH_MAX\<close> when that is defined, else 1024.\<close>

definition SERIAL_PATH_MAX :: "platform \<Rightarrow> nat" where
  "SERIAL_PATH_MAX K = (case PATH_MAX K of Some n \<Rightarrow> n | None \<Rightarrow> 1024)"

section \<open>Device configuration (\<^verbatim>\<open>config.h\<close>, \<^verbatim>\<open>main.c\<close>)\<close>

text \<open>
  A C string is modelled by the list of its bytes before the terminating NUL, so the
  empty path \<^verbatim>\<open>path[0] == '\0'\<close> is \<open>[]\<close>, and a \<^verbatim>\<open>char *\<close> that may be \<^verbatim>\<open>NULL\<close> is a
  \<open>string option\<close>. The C \<^verbatim>\<open>int\<close>s of the program (speed codes, flags, descriptors,
  option codes) are never used in arithmetic that could overflow; they are \<open>int\<close>.
\<close>

record config_t =
  baud :: int
  hwflow :: int
  path :: string
  fd :: int

definition serial_device :: config_t where
  "serial_device = \<lparr>baud = 115200, hwflow = 0, path = [], fd = -1\<rparr>"

text \<open>\<^verbatim>\<open>strncpy(dst, src, n - 1); dst[n - 1] = '\0'\<close> on a buffer of \<open>n\<close> bytes.\<close>

definition strncpy_path :: "platform \<Rightarrow> string \<Rightarrow> string" where
  "strncpy_path K src = take (SERIAL_PATH_MAX K - 1) src"

section \<open>Observable effects\<close>

record termios =
  c_iflag :: "32 word"
  c_oflag :: "32 word"
  c_cflag :: "32 word"
  c_lflag :: "32 word"
  c_ispeed :: int
  c_ospeed :: int

text \<open>
  What the program does to the outside world is recorded, in order, in a trace:
  text written to the standard streams and the system calls issued.
\<close>

datatype event =
    Printf string
  | Perror string
  | Stderr string
  | Fflush_stdout
  | Signal int
  | Posix_openpt
  | Grantpt int
  | Unlockpt int
  | Ptsname int
  | Open_rdwr string
  | Tcgetattr int
  | Tcsetattr int termios
  | Close int
  | Select_read int int int
  | Select_write int int int
  | Read_byte int
  | Write_byte int "8 word"
  | Mctp string

section \<open>Token mappings (\<^verbatim>\<open>main.c\<close>)\<close>

definition baudMap :: "platform \<Rightarrow> (string \<times> int) list" where
  "baudMap K =
     [(''4800'', B4800 K), (''9600'', B9600 K), (''19200'', B19200 K),
      (''38400'', B38400 K), (''57600'', B57600 K), (''115200'', B115200 K),
      (''230400'', B230400 K)]"

text \<open>The \<^verbatim>\<open>for\<close> loop over the table, up to its \<^verbatim>\<open>{NULL, 0}\<close> end marker.\<close>

fun baudMap_scan :: "(string \<times> int) list \<Rightarrow> string \<Rightarrow> int option" where
  "baudMap_scan [] str = None"
| "baudMap_scan ((name, val) # es) str =
     (if str = name then Some val else baudMap_scan es str)"

definition baud_warning :: "string \<Rightarrow> event" where
  "baud_warning str =
     Printf (''Warning: Unrecognized baud rate '' @ [CHR 0x27] @ str @ [CHR 0x27]
             @ '', using default 115200.\<newline>'')"

definition baudRateFromString :: "platform \<Rightarrow> string option \<Rightarrow> int \<times> event list" where
  "baudRateFromString K str =
     (case str of
        None \<Rightarrow> (B115200 K, [])
      | Some s \<Rightarrow>
          (case baudMap_scan (baudMap K) s of
             Some v \<Rightarrow> (v, [])
           | None \<Rightarrow> (B115200 K, [baud_warning s])))"

text \<open>
  \<^verbatim>\<open>tolower\<close> in the "C" locale (the program never calls \<^verbatim>\<open>setlocale\<close>): the 26
  upper-case ASCII letters move down by 32, every other byte is kept.
\<close>

definition tolower :: "char \<Rightarrow> char" where
  "tolower c =
     (if 65 \<le> (of_char c :: nat) \<and> (of_char c :: nat) \<le> 90
      then char_of ((of_char c :: nat) + 32) else c)"

fun toLower :: "string \<Rightarrow> string" where
  "toLower [] = []"
| "toLower (c # s) = tolower c # toLower s"

definition bool_warning :: "string \<Rightarrow> event" where
  "bool_warning s =
     Printf (''Warning: Unrecognized boolean value '' @ [CHR 0x27] @ s @ [CHR 0x27]
             @ ''. Using FALSE.\<newline>'')"

text \<open>\<open>parseBool\<close> lower-cases its argument in place and then compares it.\<close>

definition parseBool :: "string option \<Rightarrow> int \<times> event list" where
  "parseBool s =
     (case s of
        None \<Rightarrow> (0, [])
      | Some s0 \<Rightarrow>
          (let s1 = toLower s0 in
           if s1 = ''true'' \<or> s1 = ''1'' \<or> s1 = ''yes'' then (1, [])
           else if s1 = ''false'' \<or> s1 = ''0'' \<or> s1 = ''no'' then (0, [])
           else (0, [bool_warning s1])))"

definition printUsage :: "string \<Rightarrow> event list" where
  "printUsage progName =
     [Printf (''Usage: '' @ progName @ '' --tty <tty-path> [options]\<newline>\<newline>''),
      Printf ''Required:\<newline>'',
      Printf ''  --tty  <tty-path>       Path to serial device (e.g. /dev/ttyS0, /dev/ttyUSB0).\<newline>\<newline>'',
      Printf ''Optional:\<newline>'',
      Printf ''  --baud <baud-string>    Baud rate string (e.g. 9600, 115200). If omitted, default 115200 is used\<newline>'',
      Printf ''  --hwflow <TRUE|FALSE>   Hardware flow control. TRUE to enable RTS/CTS, FALSE (default) to disable.\<newline>'',
      Printf ''  --help                  Show this help message and exit.\<newline>\<newline>'',
      Printf ''Examples:\<newline>'',
      Printf (''  '' @ progName @ '' --tty /dev/ttyUSB0 --baud 115200 --hwflow TRUE \<newline>''),
      Printf ''Notes:\<newline>'',
      Printf ''  - The code is blocking and will run until iterrupted with SIGINT.\<newline>'',
      Printf ''\<newline>'']"

section \<open>The operating system seen by \<^verbatim>\<open>platform.c\<close>\<close>

text \<open>
  The results of the system and library calls are inputs of the model: one field per
  call, a function of the call's arguments. \<open>sys_tcgetattr\<close> gives the return value and
  the attributes read; \<open>sys_select_read\<close> and \<open>sys_select_write\<close> give the return value of
  \<^verbatim>\<open>select\<close> and whether the descriptor is still in the set afterwards; \<open>sys_read\<close>
  gives the return value and the byte stored.
\<close>

record os =
  sys_posix_openpt :: int
  sys_grantpt :: "int \<Rightarrow> int"
  sys_unlockpt :: "int \<Rightarrow> int"
  sys_ptsname :: "int \<Rightarrow> string option"
  sys_open :: "string \<Rightarrow> int"
  sys_tcgetattr :: "int \<Rightarrow> int \<times> termios"
  lib_cfsetospeed :: "termios \<Rightarrow> int \<Rightarrow> termios"
  lib_cfsetispeed :: "termios \<Rightarrow> int \<Rightarrow> termios"
  sys_tcsetattr :: "int \<Rightarrow> termios \<Rightarrow> int"
  sys_select_read :: "int \<Rightarrow> int \<times> bool"
  sys_select_write :: "int \<Rightarrow> int \<times> bool"
  sys_read :: "int \<Rightarrow> int \<times> 8 word"
  sys_write :: "int \<Rightarrow> 8 word \<Rightarrow> int"

text \<open>\<^verbatim>\<open>printf("%d", i)\<close>.\<close>

fun dec_nat :: "nat \<Rightarrow> string" where
  "dec_nat n =
     (if n < 10 then [char_of (48 + n)]
      else dec_nat (n div 10) @ [char_of (48 + n mod 10)])"

definition dec :: "int \<Rightarrow> string" where
  "dec i = (if i < 0 then CHR ''-'' # dec_nat (nat (- i)) else dec_nat (nat i))"

section \<open>Serial transport (\<^verbatim>\<open>platform.c\<close>)\<close>

definition init_banner :: "config_t \<Rightarrow> event list" where
  "init_banner cfg =
     [Printf ''Initializing platform serial interface...\<newline>'',
      Printf (''  Device path: '' @ (if path cfg = [] then ''(pty)'' else path cfg) @ ''\<newline>''),
      Printf (''  Baud rate: '' @ dec (baud cfg) @ ''\<newline>''),
      Printf (''  Hardware flow control: ''
              @ (if hwflow cfg \<noteq> 0 then ''ENABLED'' else ''DISABLED'') @ ''\<newline>'')]"

text \<open>The attribute changes between \<^verbatim>\<open>tcgetattr\<close> and \<^verbatim>\<open>tcsetattr\<close>.\<close>

definition raw_8N1 :: "platform \<Rightarrow> os \<Rightarrow> config_t \<Rightarrow> termios \<Rightarrow> termios" where
  "raw_8N1 K sys cfg tty0 =
     (let tty1 = lib_cfsetospeed sys tty0 (baud cfg);
          tty2 = lib_cfsetispeed sys tty1 (baud cfg);
          cf1 = and (c_cflag tty2) (not (PARENB K));
          cf2 = and cf1 (not (CSTOPB K));
          cf3 = and cf2 (not (CSIZE K));
          cf4 = or cf3 (CS8 K);
          cf5 = and cf4 (not (CRTSCTS K));
          cf6 = (if hwflow cfg \<noteq> 0 then or cf5 (CRTSCTS K) else cf5);
          cf7 = or cf6 (or (CREAD K) (CLOCAL K))
      in tty2\<lparr>c_cflag := cf7,
              c_lflag := and (c_lflag tty2) (not (or (or (or (ICANON K) (ECHO K)) (ECHOE K)) (ISIG K))),
              c_iflag := and (c_iflag tty2) (not (or (or (IXON K) (IXOFF K)) (IXANY K))),
              c_oflag := and (c_oflag tty2) (not (OPOST K))\<rparr>)"

text \<open>
  \<open>platform_init\<close> reads and writes the global \<open>serial_device\<close>: the model takes the
  configuration and returns it with the trace of the call. Every \<^verbatim>\<open>return\<close> of the
  source is one result here; there is no \<^verbatim>\<open>exit\<close> or \<^verbatim>\<open>abort\<close> in the function.
\<close>

definition platform_init :: "platform \<Rightarrow> os \<Rightarrow> config_t \<Rightarrow> config_t \<times> event list" where
  "platform_init K sys cfg =
     (if path cfg = [] then
        (let master_fd = sys_posix_openpt sys in
         if master_fd = -1 then
           (cfg, init_banner cfg @ [Posix_openpt, Perror ''posix_openpt''])
         else if sys_grantpt sys master_fd = -1 then
           (cfg, init_banner cfg @
              [Posix_openpt, Grantpt master_fd, Perror ''grantpt/unlockpt'', Close master_fd])
         else if sys_unlockpt sys master_fd = -1 then
           (cfg, init_banner cfg @
              [Posix_openpt, Grantpt master_fd, Unlockpt master_fd,
               Perror ''grantpt/unlockpt'', Close master_fd])
         else
           (case sys_ptsname sys master_fd of
              None \<Rightarrow>
                (cfg, init_banner cfg @
                   [Posix_openpt, Grantpt master_fd, Unlockpt master_fd, Ptsname master_fd,
                    Perror ''ptsname'', Close master_fd])
            | Some slave_name \<Rightarrow>
                (let cfg1 = cfg\<lparr>path := strncpy_path K slave_name\<rparr>;
                     cfg2 = cfg1\<lparr>fd := master_fd\<rparr>
                 in (cfg2, init_banner cfg @
                      [Posix_openpt, Grantpt master_fd, Unlockpt master_fd, Ptsname master_fd,
                       Printf (''  Created pty device: '' @ path cfg2 @ ''\<newline>''),
                       Fflush_stdout]))))
      else
        (let cfg1 = cfg\<lparr>fd := sys_open sys (path cfg)\<rparr> in
         if fd cfg1 = -1 then
           (cfg1, init_banner cfg @ [Open_rdwr (path cfg), Perror ''open''])
         else
           (let (r, tty0) = sys_tcgetattr sys (fd cfg1) in
            if r \<noteq> 0 then
              (cfg1\<lparr>fd := -1\<rparr>, init_banner cfg @
                 [Open_rdwr (path cfg), Tcgetattr (fd cfg1), Perror ''tcgetattr'',
                  Close (fd cfg1)])
            else
              (let tty = raw_8N1 K sys cfg1 tty0 in
               if sys_tcsetattr sys (fd cfg1) tty \<noteq> 0 then
                 (cfg1\<lparr>fd := -1\<rparr>, init_banner cfg @
                    [Open_rdwr (path cfg), Tcgetattr (fd cfg1), Tcsetattr (fd cfg1) tty,
                     Perror ''tcsetattr'', Close (fd cfg1)])
               else
                 (cfg1, init_banner cfg @
                    [Open_rdwr (path cfg), Tcgetattr (fd cfg1), Tcsetattr (fd cfg1) tty])))))"

text \<open>
  The readiness queries. \<^verbatim>\<open>select\<close> is called with \<^verbatim>\<open>nfds = fd + 1\<close>, the one descriptor
  in the set and the timeout \<^verbatim>\<open>{tv_sec = 0, tv_usec = 0}\<close>: the event records the three
  numbers.
\<close>

definition platform_serial_has_data :: "os \<Rightarrow> config_t \<Rightarrow> 8 word \<times> event list" where
  "platform_serial_has_data sys cfg =
     (if fd cfg = -1 then (0, [])
      else
        (let (ret, isset) = sys_select_read sys (fd cfg) in
         if ret > 0 then ((if isset then 1 else 0), [Select_read (fd cfg + 1) 0 0])
         else (0, [Select_read (fd cfg + 1) 0 0])))"

definition platform_serial_can_write :: "os \<Rightarrow> config_t \<Rightarrow> 8 word \<times> event list" where
  "platform_serial_can_write sys cfg =
     (if fd cfg = -1 then (0, [])
      else
        (let (ret, isset) = sys_select_write sys (fd cfg) in
         if ret > 0 then ((if isset then 1 else 0), [Select_write (fd cfg + 1) 0 0])
         else (0, [Select_write (fd cfg + 1) 0 0])))"

definition platform_serial_read_byte :: "os \<Rightarrow> config_t \<Rightarrow> 8 word \<times> event list" where
  "platform_serial_read_byte sys cfg =
     (let (result, byte) = sys_read sys (fd cfg) in
      if result = 1 then (byte, [Read_byte (fd cfg)]) else (0, [Read_byte (fd cfg)]))"

definition platform_serial_write_byte :: "os \<Rightarrow> config_t \<Rightarrow> 8 word \<Rightarrow> event list" where
  "platform_serial_write_byte sys cfg b =
     (if sys_write sys (fd cfg) b \<noteq> 1 then [Write_byte (fd cfg) b, Perror ''write'']
      else [Write_byte (fd cfg) b])"

section \<open>The option scanner \<^verbatim>\<open>getopt_long\<close>\<close>

text \<open>
  \<open>parseArgs\<close> drives the C library's \<^verbatim>\<open>getopt_long\<close> and moves its cursor \<^verbatim>\<open>optind\<close>
  itself. The scanner is the GNU one (the program is built for Linux), written here
  after its documented algorithm: the scan state \<^verbatim>\<open>optind\<close>, \<^verbatim>\<open>optarg\<close>, \<^verbatim>\<open>optopt\<close>,
  the cursor \<open>nextchar\<close> inside a cluster of short options (\<open>[]\<close> when there is none),
  the block \<open>first_nonopt ..< last_nonopt\<close> of operands skipped so far, and the argument
  vector, which the scanner permutes so that the operands end up last. Left out are
  the branches that no call of this program can take: \<^verbatim>\<open>getopt_long_only\<close>, an option
  with a \<^verbatim>\<open>flag\<close> pointer, and \<^verbatim>\<open>W;\<close> in the option string. \<open>optind\<close> never exceeds
  \<open>argc\<close>; where the library tests \<^verbatim>\<open>optind == argc\<close> the model tests \<open>argc \<le> optind\<close>.
\<close>

datatype ordering = REQUIRE_ORDER | PERMUTE | RETURN_IN_ORDER

record getopt_data =
  argv :: "string list"
  optind :: nat
  optarg :: "string option"
  optopt :: int
  nextchar :: string
  first_nonopt :: nat
  last_nonopt :: nat
  ordering :: ordering
  initialized :: bool

text \<open>A long option: name, \<^verbatim>\<open>has_arg\<close> and the value returned.\<close>

type_synonym option_t = "string \<times> int \<times> int"

definition no_argument :: int where "no_argument = 0"
definition required_argument :: int where "required_argument = 1"
definition optional_argument :: int where "optional_argument = 2"

definition argc :: "getopt_data \<Rightarrow> nat" where
  "argc d = length (argv d)"

definition progname :: "getopt_data \<Rightarrow> string" where
  "progname d = (case argv d of [] \<Rightarrow> ''(null)'' | a # _ \<Rightarrow> a)"

text \<open>The state before the first call: \<^verbatim>\<open>optind = 1\<close>, nothing initialised.\<close>

definition getopt_start :: "string list \<Rightarrow> getopt_data" where
  "getopt_start av =
     \<lparr>argv = av, optind = 1, optarg = None, optopt = 63, nextchar = [],
      first_nonopt = 0, last_nonopt = 0, ordering = PERMUTE, initialized = False\<rparr>"

text \<open>\<open>pc\<close>: the environment variable \<^verbatim>\<open>POSIXLY_CORRECT\<close> is set.\<close>

definition getopt_initialize :: "bool \<Rightarrow> string \<Rightarrow> getopt_data \<Rightarrow> getopt_data" where
  "getopt_initialize pc optstring d =
     (let oi = (if optind d = 0 then 1 else optind d) in
      d\<lparr>optind := oi, first_nonopt := oi, last_nonopt := oi, nextchar := [],
        ordering :=
          (case optstring of
             c # _ \<Rightarrow>
               if c = CHR ''-'' then RETURN_IN_ORDER
               else if c = CHR ''+'' then REQUIRE_ORDER
               else if pc then REQUIRE_ORDER else PERMUTE
           | [] \<Rightarrow> if pc then REQUIRE_ORDER else PERMUTE),
        initialized := True\<rparr>)"

definition optstring_body :: "string \<Rightarrow> string" where
  "optstring_body optstring =
     (case optstring of
        c # r \<Rightarrow> if c = CHR ''-'' \<or> c = CHR ''+'' then r else optstring
      | [] \<Rightarrow> [])"

text \<open>\<^verbatim>\<open>argv[optind][0] != '-' || argv[optind][1] == '\0'\<close>.\<close>

definition NONOPTION_P :: "string \<Rightarrow> bool" where
  "NONOPTION_P a = (case a of [] \<Rightarrow> True | c # r \<Rightarrow> c \<noteq> CHR ''-'' \<or> r = [])"

text \<open>
  \<open>exchange\<close> swaps the skipped operands \<open>first_nonopt ..< last_nonopt\<close> with the options
  \<open>last_nonopt ..< optind\<close> scanned after them, keeping the order inside each block.
\<close>

definition exchange :: "getopt_data \<Rightarrow> getopt_data" where
  "exchange d =
     (let bottom = first_nonopt d; middle = last_nonopt d; top = optind d; a = argv d in
      d\<lparr>argv :=
          (if bottom < middle \<and> middle < top \<and> top \<le> length a
           then take bottom a @ take (top - middle) (drop middle a)
                @ take (middle - bottom) (drop bottom a) @ drop top a
           else a),
        first_nonopt := first_nonopt d + (optind d - last_nonopt d),
        last_nonopt := optind d\<rparr>)"

text \<open>\<^verbatim>\<open>while (optind < argc && NONOPTION_P) optind++\<close>.\<close>

definition skip_nonoptions :: "getopt_data \<Rightarrow> nat" where
  "skip_nonoptions d = optind d + length (takeWhile NONOPTION_P (drop (optind d) (argv d)))"

definition QUESTION :: int where
  "QUESTION = of_char CHR ''?''"

definition quoted :: "string \<Rightarrow> string" where
  "quoted s = [CHR 0x27] @ s @ [CHR 0x27]"

definition option_matches :: "string \<Rightarrow> option_t \<Rightarrow> bool" where
  "option_matches typed p = (take (length typed) (fst p) = typed)"

definition option_differs :: "option_t \<Rightarrow> option_t \<Rightarrow> bool" where
  "option_differs pfound p = (fst (snd pfound) \<noteq> fst (snd p) \<or> snd (snd pfound) \<noteq> snd (snd p))"

text \<open>A long option was matched: consume it and find its argument.\<close>

definition long_option_found ::
    "bool \<Rightarrow> string \<Rightarrow> option_t \<Rightarrow> string \<Rightarrow> getopt_data \<Rightarrow> int \<times> getopt_data \<times> event list" where
  "long_option_found print_errors optstring pfound rest d =
     (let d1 = d\<lparr>optind := optind d + 1, nextchar := []\<rparr> in
      if rest \<noteq> [] then
        (if fst (snd pfound) \<noteq> 0 then (snd (snd pfound), d1\<lparr>optarg := Some (tl rest)\<rparr>, [])
         else (QUESTION, d1\<lparr>optopt := snd (snd pfound)\<rparr>,
               if print_errors
               then [Stderr (progname d @ '': option '' @ quoted (''--'' @ fst pfound)
                             @ '' doesn't allow an argument\<newline>'')]
               else []))
      else if fst (snd pfound) = 1 then
        (if optind d1 < argc d1
         then (snd (snd pfound),
               d1\<lparr>optarg := Some (argv d1 ! optind d1), optind := optind d1 + 1\<rparr>, [])
         else ((if take 1 optstring = '':'' then of_char CHR '':'' else QUESTION),
               d1\<lparr>optopt := snd (snd pfound)\<rparr>,
               if print_errors
               then [Stderr (progname d @ '': option '' @ quoted (''--'' @ fst pfound)
                             @ '' requires an argument\<newline>'')]
               else []))
      else (snd (snd pfound), d1, []))"

text \<open>
  \<open>process_long_option\<close>: the name typed runs up to the first \<open>=\<close>. An exact match
  wins; otherwise the name may abbreviate one option, or several that agree in
  \<^verbatim>\<open>has_arg\<close> and value.
\<close>

definition process_long_option ::
    "bool \<Rightarrow> string \<Rightarrow> option_t list \<Rightarrow> getopt_data \<Rightarrow> int \<times> getopt_data \<times> event list" where
  "process_long_option print_errors optstring longopts d =
     (let typed = takeWhile (\<lambda>c. c \<noteq> CHR ''='') (nextchar d);
          rest = dropWhile (\<lambda>c. c \<noteq> CHR ''='') (nextchar d)
      in case find (\<lambda>p. fst p = typed) longopts of
           Some pfound \<Rightarrow> long_option_found print_errors optstring pfound rest d
         | None \<Rightarrow>
             (case filter (option_matches typed) longopts of
                [] \<Rightarrow>
                  (QUESTION, d\<lparr>nextchar := [], optind := optind d + 1, optopt := 0\<rparr>,
                   if print_errors
                   then [Stderr (progname d @ '': unrecognized option ''
                                 @ quoted (''--'' @ nextchar d) @ ''\<newline>'')]
                   else [])
              | pfound # ps \<Rightarrow>
                  if list_ex (option_differs pfound) ps then
                    (QUESTION, d\<lparr>nextchar := [], optind := optind d + 1, optopt := 0\<rparr>,
                     if print_errors
                     then [Stderr (progname d @ '': option '' @ quoted (''--'' @ nextchar d)
                                   @ '' is ambiguous; possibilities:''
                                   @ concat (map (\<lambda>p. '' '' @ quoted (''--'' @ fst p))
                                               (pfound # filter (option_differs pfound) ps))
                                   @ ''\<newline>'')]
                     else [])
                  else long_option_found print_errors optstring pfound rest d))"

text \<open>
  The next short option character of the cluster at \<open>nextchar\<close>. \<open>optind\<close> moves on
  when the last character of the element is taken.
\<close>

definition short_option ::
    "bool \<Rightarrow> string \<Rightarrow> getopt_data \<Rightarrow> int \<times> getopt_data \<times> event list" where
  "short_option print_errors optstring d =
     (case nextchar d of
        [] \<Rightarrow> (QUESTION, d, [])
      | c # nc \<Rightarrow>
          (let temp = dropWhile (\<lambda>x. x \<noteq> c) optstring;
               d1 = d\<lparr>nextchar := nc\<rparr>;
               d2 = (if nc = [] then d1\<lparr>optind := optind d1 + 1\<rparr> else d1)
           in if temp = [] \<or> c = CHR '':'' \<or> c = CHR '';'' then
                (QUESTION, d2\<lparr>optopt := of_char c\<rparr>,
                 if print_errors
                 then [Stderr (progname d @ '': invalid option -- '' @ quoted [c] @ ''\<newline>'')]
                 else [])
              else if take 1 (drop 1 temp) = '':'' then
                (if take 1 (drop 2 temp) = '':'' then
                   (if nc \<noteq> []
                    then (of_char c,
                          d2\<lparr>optarg := Some nc, optind := optind d2 + 1, nextchar := []\<rparr>, [])
                    else (of_char c, d2\<lparr>optarg := None, nextchar := []\<rparr>, []))
                 else if nc \<noteq> [] then
                   (of_char c, d2\<lparr>optarg := Some nc, optind := optind d2 + 1, nextchar := []\<rparr>, [])
                 else if argc d2 \<le> optind d2 then
                   ((if take 1 optstring = '':'' then of_char CHR '':'' else QUESTION),
                    d2\<lparr>optopt := of_char c, nextchar := []\<rparr>,
                    if print_errors
                    then [Stderr (progname d @ '': option requires an argument -- ''
                                  @ quoted [c] @ ''\<newline>'')]
                    else [])
                 else
                   (of_char c,
                    d2\<lparr>optarg := Some (argv d2 ! optind d2), optind := optind d2 + 1,
                       nextchar := []\<rparr>, []))
              else (of_char c, d2, [])))"

text \<open>
  Advancing to the next element of \<open>argv\<close> (the scanner is not inside a cluster):
  \<open>next_element\<close> moves \<open>optind\<close> over operands and \<^verbatim>\<open>--\<close>, then \<open>getopt_advance\<close> looks at
  the element found. Its result is \<open>Inl\<close> when the call returns from here and \<open>Inr\<close> when
  a cluster of short options starts.
\<close>

definition permute_step :: "getopt_data \<Rightarrow> getopt_data" where
  "permute_step d =
     (let d1 = (if first_nonopt d \<noteq> last_nonopt d \<and> last_nonopt d \<noteq> optind d then exchange d
                else if last_nonopt d \<noteq> optind d then d\<lparr>first_nonopt := optind d\<rparr>
                else d);
          oi = skip_nonoptions d1
      in d1\<lparr>optind := oi, last_nonopt := oi\<rparr>)"

definition dashdash_step :: "getopt_data \<Rightarrow> getopt_data" where
  "dashdash_step d =
     (let d1 = d\<lparr>optind := optind d + 1\<rparr>;
          d2 = (if first_nonopt d1 \<noteq> last_nonopt d1 \<and> last_nonopt d1 \<noteq> optind d1
                then exchange d1
                else if first_nonopt d1 = last_nonopt d1 then d1\<lparr>first_nonopt := optind d1\<rparr>
                else d1)
      in d2\<lparr>last_nonopt := argc d2, optind := argc d2\<rparr>)"

definition next_element :: "getopt_data \<Rightarrow> getopt_data" where
  "next_element d =
     (let d1 = (if last_nonopt d > optind d then d\<lparr>last_nonopt := optind d\<rparr> else d);
          d2 = (if first_nonopt d1 > optind d1 then d1\<lparr>first_nonopt := optind d1\<rparr> else d1);
          d3 = (if ordering d2 = PERMUTE then permute_step d2 else d2)
      in if optind d3 < argc d3 \<and> argv d3 ! optind d3 = ''--''
         then dashdash_step d3 else d3)"

definition getopt_advance ::
    "bool \<Rightarrow> string \<Rightarrow> option_t list \<Rightarrow> getopt_data
       \<Rightarrow> (int \<times> getopt_data \<times> event list) + getopt_data" where
  "getopt_advance print_errors optstring longopts d =
     (let d4 = next_element d
      in if argc d4 \<le> optind d4 then
           Inl (-1, (if first_nonopt d4 \<noteq> last_nonopt d4
                     then d4\<lparr>optind := first_nonopt d4\<rparr> else d4), [])
         else if NONOPTION_P (argv d4 ! optind d4) then
           (if ordering d4 = REQUIRE_ORDER then Inl (-1, d4, [])
            else Inl (1, d4\<lparr>optarg := Some (argv d4 ! optind d4), optind := optind d4 + 1\<rparr>, []))
         else if take 1 (drop 1 (argv d4 ! optind d4)) = ''-'' then
           Inl (process_long_option print_errors optstring longopts
                  (d4\<lparr>nextchar := drop 2 (argv d4 ! optind d4)\<rparr>))
         else Inr (d4\<lparr>nextchar := drop 1 (argv d4 ! optind d4)\<rparr>))"

text \<open>Every call clears \<^verbatim>\<open>optarg\<close>; the first one initialises the scan.\<close>

definition getopt_prepare :: "bool \<Rightarrow> string \<Rightarrow> getopt_data \<Rightarrow> getopt_data" where
  "getopt_prepare pc optstring0 d =
     (let d0 = d\<lparr>optarg := None\<rparr>
      in if optind d0 = 0 \<or> \<not> initialized d0
         then getopt_initialize pc optstring0 d0 else d0)"

definition getopt_long ::
    "bool \<Rightarrow> string \<Rightarrow> option_t list \<Rightarrow> getopt_data \<Rightarrow> int \<times> getopt_data \<times> event list" where
  "getopt_long pc optstring0 longopts d =
     (if argc d < 1 then (-1, d, [])
      else
        (let d1 = getopt_prepare pc optstring0 d;
             optstring = optstring_body optstring0;
             print_errors = (take 1 optstring \<noteq> '':'')
         in if nextchar d1 = [] then
              (case getopt_advance print_errors optstring longopts d1 of
                 Inl r \<Rightarrow> r
               | Inr d2 \<Rightarrow> short_option print_errors optstring d2)
            else short_option print_errors optstring d1))"

section \<open>Argument parser (\<^verbatim>\<open>main.c\<close>)\<close>

definition longOpts :: "option_t list" where
  "longOpts =
     [(''tty'', optional_argument, of_char CHR ''t''),
      (''baud'', optional_argument, of_char CHR ''b''),
      (''hwflow'', optional_argument, of_char CHR ''f''),
      (''help'', no_argument, of_char CHR ''h'')]"

text \<open>
  The three option cases start alike: the value is \<^verbatim>\<open>optarg\<close> or, when that is
  \<^verbatim>\<open>NULL\<close> and the next element does not start with \<open>-\<close>, the next element, which the
  parser consumes by moving \<^verbatim>\<open>optind\<close>.
\<close>

definition option_value :: "getopt_data \<Rightarrow> string option \<times> getopt_data" where
  "option_value d =
     (if optarg d = None \<and> optind d < argc d \<and> take 1 (argv d ! optind d) \<noteq> ''-''
      then (Some (argv d ! optind d), d\<lparr>optind := optind d + 1\<rparr>)
      else (optarg d, d))"

text \<open>
  \<open>parseBool\<close> lower-cases the value where it stands, and the value stands in \<open>argv\<close>:
  it is \<^verbatim>\<open>optarg\<close>, which the scanner has set to the rest of the option's element
  (\<^verbatim>\<open>--hwflow=TRUE\<close>, \<^verbatim>\<open>-fTRUE\<close>) or to the element after it (\<^verbatim>\<open>-f TRUE\<close>), or it is the
  element that the parser has just taken with \<^verbatim>\<open>argv[optind++]\<close>. In each case it is the
  end of the element before \<^verbatim>\<open>optind\<close>, and \<^verbatim>\<open>optarg\<close>, when set, points at it.
\<close>

definition toLower_in_place :: "getopt_data \<Rightarrow> string \<Rightarrow> getopt_data" where
  "toLower_in_place d v =
     (let i = optind d - 1; e = argv d ! i
      in d\<lparr>argv := (argv d)[i := take (length e - length v) e @ toLower v],
           optarg := map_option toLower (optarg d)\<rparr>)"

text \<open>
  One turn of the \<^verbatim>\<open>while\<close> loop of \<open>parseArgs\<close>: the call of \<^verbatim>\<open>getopt_long\<close> and the
  \<^verbatim>\<open>switch\<close>. \<open>Return r\<close> leaves the function with value \<open>r\<close>; \<open>Continue\<close> goes round again.
\<close>

datatype loop_exit = Return int | Continue

definition parse_step ::
    "platform \<Rightarrow> bool \<Rightarrow> getopt_data \<Rightarrow> config_t
       \<Rightarrow> loop_exit \<times> getopt_data \<times> config_t \<times> event list" where
  "parse_step K pc d cfg =
     (let (opt, d1, ev) = getopt_long pc ''t:b:f:h'' longOpts d in
      if opt = -1 then (Return 1, d1, cfg, ev)
      else if opt = of_char CHR ''t'' then
        (let (val, d2) = option_value d1 in
         case val of
           Some v \<Rightarrow> (Continue, d2, cfg\<lparr>path := strncpy_path K v\<rparr>, ev)
         | None \<Rightarrow> (Continue, d2, cfg\<lparr>path := []\<rparr>, ev))
      else if opt = of_char CHR ''b'' then
        (let (val, d2) = option_value d1 in
         case val of
           Some v \<Rightarrow>
             (let (b, w) = baudRateFromString K (Some v)
              in (Continue, d2, cfg\<lparr>baud := b\<rparr>, ev @ w))
         | None \<Rightarrow> (Continue, d2, cfg, ev))
      else if opt = of_char CHR ''f'' then
        (let (val, d2) = option_value d1 in
         case val of
           Some v \<Rightarrow>
             (let (pb, w) = parseBool (Some v)
              in (Continue, toLower_in_place d2 v, cfg\<lparr>hwflow := pb\<rparr>, ev @ w))
         | None \<Rightarrow> (Continue, d2, cfg, ev))
      else (Return 0, d1, cfg, ev @ printUsage (progname d1)))"

section \<open>The parse loop terminates\<close>

text \<open>
  The loop of \<open>parseArgs\<close> goes round again only after one of the three options that
  take a value. Each such call of the scanner leaves no cluster open and moves \<open>optind\<close>
  forward, which bounds the number of turns by the length of the argument vector.
\<close>

definition value_option :: "int \<Rightarrow> bool" where
  "value_option c =
     (c = of_char CHR ''t'' \<or> c = of_char CHR ''b'' \<or> c = of_char CHR ''f'')"

lemma exchange_facts:
  "argc (exchange d) = argc d" "optind (exchange d) = optind d"
  "nextchar (exchange d) = nextchar d"
  by (auto simp: exchange_def argc_def Let_def)

lemma permute_step_facts:
  "argc (permute_step d) = argc d" "optind d \<le> optind (permute_step d)"
  "nextchar (permute_step d) = nextchar d"
  by (auto simp: permute_step_def Let_def exchange_facts skip_nonoptions_def argc_def exchange_def)

lemma dashdash_step_facts:
  "argc (dashdash_step d) = argc d" "nextchar (dashdash_step d) = nextchar d"
  "optind (dashdash_step d) = argc d"
  by (auto simp: dashdash_step_def Let_def exchange_facts argc_def exchange_def)

lemma long_option_found_facts:
  assumes "long_option_found pe os p rest d = (c, d', ev)"
  shows "argv d' = argv d" "optind d < optind d'" "nextchar d' = []"
  using assms by (auto simp: long_option_found_def Let_def split: if_splits)

lemma process_long_option_facts:
  assumes "process_long_option pe os lo d = (c, d', ev)"
  shows "argv d' = argv d" "optind d < optind d'" "nextchar d' = []"
  using assms by (auto simp: process_long_option_def Let_def split: if_splits option.splits list.splits dest: long_option_found_facts)



lemma short_option_code:
  assumes "short_option pe os d = (c, d', ev)" "nextchar d = x # nc"
  shows "c = QUESTION \<or> c = of_char CHR '':'' \<or> c = of_char x"
  using assms by (auto simp: short_option_def Let_def split: if_splits)

lemma of_char_int_eq: "((of_char x :: int) = of_char y) = (x = y)"
  by (metis of_char_eq_iff)

lemma short_option_at:
  assumes "nextchar d = x # nc" "x = CHR ''t'' \<or> x = CHR ''b'' \<or> x = CHR ''f''"
    and "short_option pe ''t:b:f:h'' d = (c, d', ev)" "c \<noteq> QUESTION"
  shows "argv d' = argv d \<and> optind d < optind d' \<and> nextchar d' = []"
  using assms by (auto simp: short_option_def Let_def split: if_splits)

lemma short_option_facts:
  assumes "short_option pe ''t:b:f:h'' d = (c, d', ev)" "value_option c"
  shows "argv d' = argv d" "optind d < optind d'" "nextchar d' = []" "nextchar d \<noteq> []"
proof -
  have q: "c \<noteq> QUESTION" "c \<noteq> of_char CHR '':''" using assms(2) by (auto simp: value_option_def QUESTION_def)
  show ne: "nextchar d \<noteq> []"
    using assms(1) q by (auto simp: short_option_def)
  then obtain x nc where xs: "nextchar d = x # nc" by (cases "nextchar d") auto
  from short_option_code[OF assms(1) xs] q have "c = of_char x" by simp
  from assms(2)[unfolded value_option_def this of_char_int_eq]
  have "x = CHR ''t'' \<or> x = CHR ''b'' \<or> x = CHR ''f''" .
  from short_option_at[OF xs this assms(1) q(1)]
  show "argv d' = argv d" "optind d < optind d'" "nextchar d' = []" by simp_all
qed




lemma next_element_facts:
  "argc (next_element d) = argc d" "optind d \<le> optind (next_element d)"
  "nextchar (next_element d) = nextchar d"
proof -
  define d1 where "d1 = (if last_nonopt d > optind d then d\<lparr>last_nonopt := optind d\<rparr> else d)"
  define d2 where "d2 = (if first_nonopt d1 > optind d1 then d1\<lparr>first_nonopt := optind d1\<rparr> else d1)"
  define d3 where "d3 = (if ordering d2 = PERMUTE then permute_step d2 else d2)"
  have ne: "next_element d = (if optind d3 < argc d3 \<and> argv d3 ! optind d3 = ''--''
         then dashdash_step d3 else d3)"
    by (simp add: next_element_def d1_def d2_def d3_def Let_def)
  have 2: "argc d2 = argc d" "optind d2 = optind d" "nextchar d2 = nextchar d"
    by (simp_all add: d1_def d2_def argc_def)
  have 3: "argc d3 = argc d" "optind d \<le> optind d3" "nextchar d3 = nextchar d"
    using 2 permute_step_facts[of d2] by (simp_all add: d3_def)
  show "argc (next_element d) = argc d" "optind d \<le> optind (next_element d)"
    "nextchar (next_element d) = nextchar d"
    using 3 by (simp_all add: ne dashdash_step_facts)
qed

lemma getopt_advance_Inl:
  assumes "getopt_advance pe os lo d = Inl (c, d', ev)" "c \<noteq> -1" "c \<noteq> 1"
  shows "argc d' = argc d" "optind d < optind d'" "nextchar d' = []" "optind d < argc d"
proof -
  let ?d4 = "next_element d"
  from assms have *: "process_long_option pe os lo (?d4\<lparr>nextchar := drop 2 (argv ?d4 ! optind ?d4)\<rparr>) = (c, d', ev)"
     and lt: "optind ?d4 < argc ?d4"
    by (auto simp: getopt_advance_def Let_def split: if_splits)
  from process_long_option_facts[OF *] next_element_facts[of d] lt
  show "argc d' = argc d" "optind d < optind d'" "nextchar d' = []" "optind d < argc d"
    by (auto simp: argc_def)
qed

lemma getopt_advance_Inr:
  assumes "getopt_advance pe os lo d = Inr d'"
  shows "argv d' = argv (next_element d)" "argc d' = argc d" "optind d \<le> optind d'" "optind d < argc d" 
  using assms next_element_facts[of d]
  by (auto simp: getopt_advance_def Let_def argc_def split: if_splits)


lemma optstring_body_prog: "optstring_body ''t:b:f:h'' = ''t:b:f:h''"
  by (simp add: optstring_body_def)

lemma value_option_not: "value_option c \<Longrightarrow> c \<noteq> -1 \<and> c \<noteq> 1 \<and> c \<noteq> QUESTION"
  by (auto simp: value_option_def QUESTION_def)

lemma getopt_prepare_facts:
  "argc (getopt_prepare pc os d) = argc d" "optind d \<le> optind (getopt_prepare pc os d)"
  "nextchar (getopt_prepare pc os d) = [] \<or> nextchar (getopt_prepare pc os d) = nextchar d"
  by (simp_all add: getopt_prepare_def Let_def getopt_initialize_def argc_def)

lemma getopt_long_value_option:
  assumes "getopt_long pc ''t:b:f:h'' lo d = (c, d', ev)" "value_option c"
  shows "argc d' = argc d \<and> optind d < optind d' \<and> nextchar d' = []
         \<and> (optind d < argc d \<or> nextchar d \<noteq> [])"
proof -
  define d1 where "d1 = getopt_prepare pc ''t:b:f:h'' d"
  have d1: "argc d1 = argc d" "optind d \<le> optind d1" "nextchar d1 = [] \<or> nextchar d1 = nextchar d"
    using getopt_prepare_facts[where pc=pc and os="''t:b:f:h''" and d=d]
    by (simp_all add: d1_def)
  have c: "c \<noteq> -1" "c \<noteq> 1" using value_option_not[OF assms(2)] by simp_all
  have ge: "\<not> argc d < 1" using assms(1) c by (cases "argc d < 1") (simp_all add: getopt_long_def)
  define pe where "pe = (take 1 ''t:b:f:h'' \<noteq> '':'')"
  have eq: "(if nextchar d1 = [] then
              (case getopt_advance pe ''t:b:f:h'' lo d1 of
                 Inl r \<Rightarrow> r
               | Inr d2 \<Rightarrow> short_option pe ''t:b:f:h'' d2)
            else short_option pe ''t:b:f:h'' d1) = (c, d', ev)"
    using assms(1) ge
    unfolding getopt_long_def Let_def optstring_body_prog d1_def[symmetric] pe_def[symmetric]
    by simp
  show ?thesis
  proof (cases "nextchar d1 = []")
    case True
    show ?thesis
    proof (cases "getopt_advance pe ''t:b:f:h'' lo d1")
      case (Inl r)
      with eq True have "getopt_advance pe ''t:b:f:h'' lo d1 = Inl (c, d', ev)" by simp
      from getopt_advance_Inl[OF this c] d1 show ?thesis by auto
    next
      case (Inr d2)
      with eq True have s: "short_option pe ''t:b:f:h'' d2 = (c, d', ev)" by simp
      from short_option_facts[OF s assms(2)] getopt_advance_Inr[OF Inr] d1
      show ?thesis by (auto simp: argc_def)
    qed
  next
    case False
    with eq have s: "short_option pe ''t:b:f:h'' d1 = (c, d', ev)" by simp
    from False d1 have "nextchar d \<noteq> []" by auto
    with short_option_facts[OF s assms(2)] d1
    show ?thesis by (auto simp: argc_def)
  qed
qed

definition scan_measure :: "getopt_data \<Rightarrow> nat" where
  "scan_measure d = 2 * (Suc (argc d) - optind d) + (if nextchar d = [] then 0 else 1)"

lemma option_value_facts:
  assumes "option_value d = (v, d')"
  shows "argc d' = argc d" "optind d \<le> optind d'" "nextchar d' = nextchar d"
  using assms by (auto simp: option_value_def argc_def split: if_splits)

lemma toLower_in_place_facts:
  "argc (toLower_in_place d v) = argc d" "optind (toLower_in_place d v) = optind d"
  "nextchar (toLower_in_place d v) = nextchar d"
  by (simp_all add: toLower_in_place_def Let_def argc_def)

lemma scan_measure_less:
  assumes "argc d' = argc d \<and> optind d < optind d' \<and> nextchar d' = []
         \<and> (optind d < argc d \<or> nextchar d \<noteq> [])"
  shows "scan_measure d' < scan_measure d"
  using assms by (auto simp: scan_measure_def)

lemma parse_step_Continue:
  assumes "parse_step K pc d cfg = (Continue, d', cfg', ev)"
  shows "scan_measure d' < scan_measure d"
proof -
  obtain opt d1 ev1 where g: "getopt_long pc ''t:b:f:h'' longOpts d = (opt, d1, ev1)"
    by (cases "getopt_long pc ''t:b:f:h'' longOpts d") auto
  obtain v d2 where ov: "option_value d1 = (v, d2)" by (cases "option_value d1") auto
  have t: "value_option opt" and d2: "d' = d2 \<or> (\<exists>v. d' = toLower_in_place d2 v)"
    using assms g ov
    by (auto simp: parse_step_def value_option_def Let_def split: if_splits option.splits prod.splits)
  from d2 have "argc d' = argc d2" "optind d' = optind d2" "nextchar d' = nextchar d2"
    by (auto simp: toLower_in_place_facts)
  with getopt_long_value_option[OF g t] option_value_facts[OF ov]
  show ?thesis by (intro scan_measure_less) auto
qed

text \<open>The \<^verbatim>\<open>while\<close> loop of \<open>parseArgs\<close>, with the trace written so far.\<close>

function parseArgs_loop ::
    "platform \<Rightarrow> bool \<Rightarrow> getopt_data \<Rightarrow> config_t \<Rightarrow> event list
      \<Rightarrow> int \<times> getopt_data \<times> config_t \<times> event list" where
  "parseArgs_loop K pc d cfg tr =
     (case parse_step K pc d cfg of
        (Return r, d1, cfg1, ev) \<Rightarrow> (r, d1, cfg1, tr @ ev)
      | (Continue, d1, cfg1, ev) \<Rightarrow> parseArgs_loop K pc d1 cfg1 (tr @ ev))"
  by pat_completeness auto
termination
  by (relation "measure (\<lambda>(K, pc, d, cfg, tr). scan_measure d)")
     (auto dest: parse_step_Continue[OF sym])

text \<open>
  \<open>parseArgs\<close> works on the global \<open>serial_device\<close>; the model takes the configuration
  and returns the value of the function, the final scan state, the configuration and
  the trace. \<open>pc\<close> says whether \<^verbatim>\<open>POSIXLY_CORRECT\<close> is set in the environment.
\<close>

definition parseArgs ::
    "platform \<Rightarrow> bool \<Rightarrow> string list \<Rightarrow> config_t
       \<Rightarrow> int \<times> getopt_data \<times> config_t \<times> event list" where
  "parseArgs K pc av cfg = parseArgs_loop K pc (getopt_start av) cfg []"

section \<open>Control loop (\<^verbatim>\<open>main.c\<close>)\<close>

text \<open>\<^verbatim>\<open><signal.h>\<close> and \<^verbatim>\<open><stdlib.h>\<close> on Linux.\<close>

definition SIGINT :: int where "SIGINT = 2"
definition SIGTERM :: int where "SIGTERM = 15"
definition EXIT_FAILURE :: int where "EXIT_FAILURE = 1"

text \<open>
  The handler works on the flag \<open>interrupted\<close> and on the standard output: it takes and
  returns the pair of the flag and the trace.
\<close>

definition signalHandler :: "int \<Rightarrow> int \<times> event list \<Rightarrow> int \<times> event list" where
  "signalHandler signum st =
     (1, snd st @ [Printf (''\<newline>Caught signal '' @ dec signum @ '', cleaning up...\<newline>'')])"

text \<open>
  Signals arrive at any moment; the loop looks at the flag only in its test. A run is
  described by the signals delivered before the first test and, for every turn of the
  loop, by what the packet processor answers and by the signals delivered during that
  turn. The handler of a signal delivered during a turn is run at the end of the turn:
  its place inside the turn changes the order of the text written, not the control.
\<close>

record iteration =
  packet_available :: bool
  control_packet :: bool
  pldm_packet :: bool
  signals :: "int list"

record run =
  signals_at_start :: "int list"
  iterations :: "iteration list"

definition deliver :: "int list \<Rightarrow> int \<times> event list \<Rightarrow> int \<times> event list" where
  "deliver sigs st = fold signalHandler sigs st"

text \<open>
  Modelled from the spec: the packet processor of \<^verbatim>\<open>core/mctp.h\<close> (\<^verbatim>\<open>mctp_init\<close>,
  \<^verbatim>\<open>mctp_update\<close>, \<^verbatim>\<open>mctp_is_packet_available\<close>, \<^verbatim>\<open>mctp_is_control_packet\<close>,
  \<^verbatim>\<open>mctp_process_control_message\<close>, \<^verbatim>\<open>mctp_ignore_packet\<close>, and with \<^verbatim>\<open>PLDM_SUPPORT\<close>
  \<^verbatim>\<open>mctp_is_pldm_packet\<close> and \<^verbatim>\<open>pldm_process_packet\<close>) is not in the sources at hand. By
  the spec it is an external collaborator that reaches the transport only through the
  primitives of \<^verbatim>\<open>platform.c\<close> and never changes the device configuration; each of its
  calls returns. \<^verbatim>\<open>mctp_init\<close> calls \<open>platform_init\<close> once, as the comment on
  \<open>platform_init\<close> says. The calls are recorded in the trace by name.
\<close>

definition mctp_init :: "platform \<Rightarrow> os \<Rightarrow> config_t \<Rightarrow> config_t \<times> event list" where
  "mctp_init K sys cfg =
     (let (cfg1, ev) = platform_init K sys cfg in (cfg1, Mctp ''mctp_init'' # ev))"

text \<open>The body of the \<^verbatim>\<open>while\<close> loop of \<open>main\<close>.\<close>

definition loop_body :: "platform \<Rightarrow> iteration \<Rightarrow> event list" where
  "loop_body K it =
     [Mctp ''mctp_update'', Mctp ''mctp_is_packet_available''] @
     (if packet_available it then
        Mctp ''mctp_is_control_packet'' #
        (if control_packet it then [Mctp ''mctp_process_control_message'']
         else if PLDM_SUPPORT K then
           Mctp ''mctp_is_pldm_packet'' #
           (if pldm_packet it then [Mctp ''pldm_process_packet'']
            else [Mctp ''mctp_ignore_packet''])
         else [Mctp ''mctp_ignore_packet''])
      else [])"

text \<open>
  \<^verbatim>\<open>while (!interrupted) { ... }\<close>. The result is the number of turns made and the trace,
  or \<open>None\<close> when the loop is still running after the turns described.
\<close>

fun control_loop ::
    "platform \<Rightarrow> iteration list \<Rightarrow> int \<Rightarrow> nat \<Rightarrow> event list \<Rightarrow> (nat \<times> event list) option" where
  "control_loop K [] interrupted n tr = (if interrupted \<noteq> 0 then Some (n, tr) else None)"
| "control_loop K (it # its) interrupted n tr =
     (if interrupted \<noteq> 0 then Some (n, tr)
      else
        (let (interrupted1, tr1) = deliver (signals it) (interrupted, tr @ loop_body K it)
         in control_loop K its interrupted1 (Suc n) tr1))"

text \<open>The end of \<open>main\<close>: \<^verbatim>\<open>if (serial_device.fd != -1) { close(...); serial_device.fd = -1; }\<close>.\<close>

definition teardown :: "config_t \<Rightarrow> config_t \<times> event list" where
  "teardown cfg =
     (if fd cfg \<noteq> -1 then (cfg\<lparr>fd := -1\<rparr>, [Close (fd cfg)]) else (cfg, []))"

definition device_banner :: "config_t \<Rightarrow> event list" where
  "device_banner cfg =
     (if fd cfg > -1 then
        [Printf (''Using serial device: '' @ path cfg @ '' at baud '' @ dec (baud cfg)
                 @ '', hwflow '' @ (if hwflow cfg \<noteq> 0 then ''TRUE'' else ''FALSE'')
                 @ ''\<newline>'')]
      else [Printf ''Using simulated pty device:\<newline>''])"

text \<open>
  The process: its exit status, the device configuration and the trace when it ends,
  or \<open>None\<close> when it is still in its loop after the turns described.
\<close>

record outcome =
  exit_status :: int
  device :: config_t
  trace :: "event list"

text \<open>
  \<open>main\<close> up to its loop: the two \<^verbatim>\<open>signal\<close> calls, \<open>parseArgs\<close>, the banner and
  \<^verbatim>\<open>mctp_init\<close>. \<open>Inl\<close> is the early \<^verbatim>\<open>return EXIT_FAILURE\<close>; \<open>Inr\<close> is the state in which
  the loop is entered.
\<close>

definition startup ::
    "platform \<Rightarrow> bool \<Rightarrow> os \<Rightarrow> string list \<Rightarrow> outcome + config_t \<times> event list" where
  "startup K pc sys av =
     (let tr0 = [Signal SIGINT, Signal SIGTERM];
          (ok, d, cfg1, tr1) = parseArgs K pc av serial_device
      in if ok = 0 then
           Inl \<lparr>exit_status = EXIT_FAILURE, device = cfg1, trace = tr0 @ tr1\<rparr>
         else
           (let (cfg2, tr2) = mctp_init K sys cfg1
            in Inr (cfg2, tr0 @ tr1 @ device_banner cfg1 @ tr2)))"

definition main :: "platform \<Rightarrow> bool \<Rightarrow> os \<Rightarrow> string list \<Rightarrow> run \<Rightarrow> outcome option" where
  "main K pc sys av r =
     (case startup K pc sys av of
        Inl out \<Rightarrow> Some out
      | Inr (cfg2, tr2) \<Rightarrow>
          (let (interrupted, tr3) = deliver (signals_at_start r) (0, tr2)
           in case control_loop K (iterations r) interrupted 0 tr3 of
                None \<Rightarrow> None
              | Some (n, tr4) \<Rightarrow>
                  (let (cfg3, tr5) = teardown cfg2
                   in Some \<lparr>exit_status = 0, device = cfg3, trace = tr4 @ tr5\<rparr>)))"

section \<open>Vocabulary of the claims\<close>

text \<open>An operating system on which every call succeeds, for the examples.\<close>

definition quiet_os :: os where
  "quiet_os =
     \<lparr>sys_posix_openpt = 3,
      sys_grantpt = (\<lambda>_. 0),
      sys_unlockpt = (\<lambda>_. 0),
      sys_ptsname = (\<lambda>_. Some ''/dev/pts/4''),
      sys_open = (\<lambda>_. 3),
      sys_tcgetattr = (\<lambda>_. (0, \<lparr>c_iflag = 0, c_oflag = 0, c_cflag = 0, c_lflag = 0,
                                   c_ispeed = 0, c_ospeed = 0\<rparr>)),
      lib_cfsetospeed = (\<lambda>t b. t\<lparr>c_ospeed := b\<rparr>),
      lib_cfsetispeed = (\<lambda>t b. t\<lparr>c_ispeed := b\<rparr>),
      sys_tcsetattr = (\<lambda>_ _. 0),
      sys_select_read = (\<lambda>_. (0, False)),
      sys_select_write = (\<lambda>_. (1, True)),
      sys_read = (\<lambda>_. (0, 0)),
      sys_write = (\<lambda>_ _. 1)\<rparr>"

text \<open>
  \<open>platform_init\<close> returns nothing; a failed step is the one it reports with
  \<^verbatim>\<open>perror\<close> before it returns.
\<close>

fun is_perror :: "event \<Rightarrow> bool" where
  "is_perror (Perror _) = True"
| "is_perror _ = False"

definition reports_failure :: "event list \<Rightarrow> bool" where
  "reports_failure ev = list_ex is_perror ev"

text \<open>
  The seven steps of the initialisation and the answers with which they fail: for the
  empty path, \<^verbatim>\<open>posix_openpt\<close>, \<^verbatim>\<open>grantpt\<close> or \<^verbatim>\<open>unlockpt\<close> returns \<open>-1\<close>, or \<^verbatim>\<open>ptsname\<close> returns
  \<^verbatim>\<open>NULL\<close>; for a named device, \<^verbatim>\<open>open\<close> returns \<open>-1\<close>, or \<^verbatim>\<open>tcgetattr\<close> or \<^verbatim>\<open>tcsetattr\<close> does
  not return 0.
\<close>

definition step_fails :: "platform \<Rightarrow> os \<Rightarrow> config_t \<Rightarrow> bool" where
  "step_fails K sys cfg =
     (if path cfg = [] then
        (let master_fd = sys_posix_openpt sys
         in master_fd = -1 \<or> sys_grantpt sys master_fd = -1 \<or> sys_unlockpt sys master_fd = -1
            \<or> sys_ptsname sys master_fd = None)
      else
        (let f = sys_open sys (path cfg);
             tty0 = snd (sys_tcgetattr sys f)
         in f = -1 \<or> fst (sys_tcgetattr sys f) \<noteq> 0
            \<or> sys_tcsetattr sys f (raw_8N1 K sys (cfg\<lparr>fd := f\<rparr>) tty0) \<noteq> 0))"

text \<open>Text written to the standard streams, as opposed to calls that touch a device.\<close>

fun is_text :: "event \<Rightarrow> bool" where
  "is_text (Printf _) = True"
| "is_text (Stderr _) = True"
| "is_text _ = False"

fun is_close :: "event \<Rightarrow> bool" where
  "is_close (Close _) = True"
| "is_close _ = False"

text \<open>
  The trace of a run that never starts the transport holds the two \<^verbatim>\<open>signal\<close> calls and
  text only: neither \<^verbatim>\<open>mctp_init\<close> nor any system call on a descriptor.
\<close>

fun transport_event :: "event \<Rightarrow> bool" where
  "transport_event (Printf _) = False"
| "transport_event (Stderr _) = False"
| "transport_event (Signal _) = False"
| "transport_event _ = True"

declare parseArgs_loop.simps [simp del]

text \<open>A code that sends \<open>parseArgs\<close> to its \<^verbatim>\<open>case 'h': default:\<close> branch.\<close>

definition rejected :: "int \<Rightarrow> bool" where
  "rejected opt = (opt \<noteq> -1 \<and> \<not> value_option opt)"

text \<open>
  The command line as its user reads it, element by element from the left, after the
  program name. \<^verbatim>\<open>--\<close> ends the options. An operand (an element that does not start
  with \<open>-\<close>, or \<open>-\<close> alone) is passed over, or ends the options when \<^verbatim>\<open>POSIXLY_CORRECT\<close>
  is set. The long options with a value are \<^verbatim>\<open>--tty\<close>, \<^verbatim>\<open>--baud\<close> and \<^verbatim>\<open>--hwflow\<close>, which
  may be shortened to any beginning that no other option shares; the value is attached
  with \<open>=\<close>, or it is the next element if that does not start with \<open>-\<close>. The short
  options with a value are \<^verbatim>\<open>-t\<close>, \<^verbatim>\<open>-b\<close> and \<^verbatim>\<open>-f\<close>; the value is the rest of the element
  or, when there is none, the next element whatever it is. \<open>rejects\<close> says that this
  reading meets, in the place of an option, anything else: a help request (\<^verbatim>\<open>--help\<close>,
  \<^verbatim>\<open>--he\<close>, \<^verbatim>\<open>-h\<close>), an option that is unknown or ambiguous, a value given to \<^verbatim>\<open>--help\<close>,
  or \<^verbatim>\<open>-t\<close>, \<^verbatim>\<open>-b\<close>, \<^verbatim>\<open>-f\<close> as the last element, without a value. It looks at the text of
  the elements only; that the parser decides the same is a theorem below.
\<close>

definition long_value_names :: "string list" where
  "long_value_names =
     [''t'', ''tt'', ''tty'', ''b'', ''ba'', ''bau'', ''baud'',
      ''hw'', ''hwf'', ''hwfl'', ''hwflo'', ''hwflow'']"

definition operand :: "string \<Rightarrow> bool" where
  "operand a = (take 1 a \<noteq> ''-'' \<or> a = ''-'')"

fun rejects :: "bool \<Rightarrow> string list \<Rightarrow> bool" where
  "rejects pc [] = False"
| "rejects pc (a # rest) =
     (if a = ''--'' then False
      else if operand a then \<not> pc \<and> rejects pc rest
      else if take 2 a = ''--'' then
        (if takeWhile (\<lambda>c. c \<noteq> CHR ''='') (drop 2 a) \<in> set long_value_names then
           (if CHR ''='' \<in> set a then rejects pc rest
            else (case rest of
                    [] \<Rightarrow> False
                  | v # rest' \<Rightarrow> if take 1 v = ''-'' then rejects pc rest else rejects pc rest'))
         else True)
      else if take 1 (drop 1 a) = ''t'' \<or> take 1 (drop 1 a) = ''b''
              \<or> take 1 (drop 1 a) = ''f'' then
        (if drop 2 a \<noteq> [] then rejects pc rest
         else (case rest of [] \<Rightarrow> True | v # rest' \<Rightarrow> rejects pc rest'))
      else True)"

text \<open>
  The rate that a token of \<open>baudMap\<close> names, and the two ways in which a value of the
  baud field can stand for a rate: as the number itself, or as the speed code that the
  table gives to the token of that rate.
\<close>

definition rate_of_token :: "string \<Rightarrow> nat" where
  "rate_of_token s = fold (\<lambda>c n. 10 * n + (of_char c - 48)) s 0"

definition stands_for :: "platform \<Rightarrow> int \<Rightarrow> nat \<Rightarrow> bool" where
  "stands_for K v r =
     (v = int r \<or> list_ex (\<lambda>e. snd e = v \<and> rate_of_token (fst e) = r) (baudMap K))"

section \<open>Defaults of the device configuration\<close>

text \<open>
  C6 (as stated): before argument parsing the configuration holds the highest baud rate
  of the set 4800, 9600, 19200, 38400, 57600, 115200, 230400. The rates of the tokens
  of \<open>baudMap\<close> are these seven and the highest is 230400; the start value of the baud
  field stands for 115200 and not for 230400, neither as a number nor as a speed code.
\<close>

theorem default_baud_not_highest:
  "Max (set (map rate_of_token (map fst (baudMap linux_termbits)))) = 230400
   \<and> stands_for linux_termbits (baud serial_device) 115200
   \<and> \<not> stands_for linux_termbits (baud serial_device) 230400"
  by (simp add: rate_of_token_def stands_for_def baudMap_def linux_termbits_def serial_device_def)

text \<open>
  C6 (amended): at process start the configuration holds hardware flow control
  disabled, an empty path, the closed handle \<open>-1\<close>, and a baud rate of 115200, which is
  one of the seven rates of the table but not the highest of them. The default that
  \<open>baudRateFromString\<close> falls back to is the same rate. How the field encodes the rate
  is left open here (see the remark after the theorem).
\<close>

theorem serial_device_defaults:
  "hwflow serial_device = 0 \<and> path serial_device = [] \<and> fd serial_device = -1
   \<and> map rate_of_token (map fst (baudMap K))
       = [4800, 9600, 19200, 38400, 57600, 115200, 230400]
   \<and> stands_for K (baud serial_device) 115200
   \<and> stands_for K (fst (baudRateFromString K None)) 115200
   \<and> 115200 < Max (set (map rate_of_token (map fst (baudMap K))))"
  by (simp add: rate_of_token_def stands_for_def baudMap_def serial_device_def
      baudRateFromString_def)

text \<open>
  The initialiser writes the number 115200 into the baud field, while \<open>parseArgs\<close>
  stores the speed codes of \<^verbatim>\<open><termios.h>\<close> there and \<open>platform_init\<close> hands the field to
  \<^verbatim>\<open>cfsetospeed\<close>: with the traditional Linux codes the start value is none of the seven
  codes of \<open>baudMap\<close>, and the code that \<^verbatim>\<open>--baud 115200\<close> stores is 4098.
\<close>

lemma start_baud_is_no_linux_speed_code:
  "baud serial_device \<notin> set (map snd (baudMap linux_termbits))
   \<and> fst (baudRateFromString linux_termbits (Some ''115200'')) = 4098"
  by (simp add: serial_device_def baudMap_def linux_termbits_def baudRateFromString_def)

section \<open>Boolean tokens\<close>

text \<open>
  The spec's "any other casing" of a lower-case word \<open>w\<close>: a string of the same length
  whose every character is the character of \<open>w\<close> at that place or its upper-case form.
\<close>

definition toupper_of :: "char \<Rightarrow> char" where
  "toupper_of l = (if 97 \<le> (of_char l :: nat) \<and> (of_char l :: nat) \<le> 122
      then char_of ((of_char l :: nat) - 32) else l)"

definition casing_of :: "string \<Rightarrow> string \<Rightarrow> bool" where
  "casing_of w s = list_all2 (\<lambda>c l. c = l \<or> c = toupper_of l) s w"

lemma of_char_nat_eq: "((of_char a :: nat) = of_char b) = (a = b)"
  by (rule of_char_eq_iff)

lemma of_char_lt: "(of_char a :: nat) < 256"
  by simp

lemma of_char_char_of_nat: "n < 256 \<Longrightarrow> (of_char (char_of (n::nat)) :: nat) = n"
  by (simp add: of_char_of)

lemma of_char_tolower:
  "(of_char (tolower c) :: nat) =
     (if 65 \<le> (of_char c :: nat) \<and> (of_char c :: nat) \<le> 90 then of_char c + 32 else of_char c)"
  unfolding tolower_def by (simp add: of_char_char_of_nat)

lemma of_char_toupper_of:
  "(of_char (toupper_of l) :: nat) =
     (if 97 \<le> (of_char l :: nat) \<and> (of_char l :: nat) \<le> 122 then of_char l - 32 else of_char l)"
proof -
  have "(of_char l :: nat) - 32 < 256" using of_char_lt[of l] by arith
  then show ?thesis unfolding toupper_of_def by (simp add: of_char_char_of_nat)
qed

definition is_upper :: "char \<Rightarrow> bool" where
  "is_upper l = (65 \<le> (of_char l :: nat) \<and> (of_char l :: nat) \<le> 90)"

lemma tolower_eq_iff:
  assumes "\<not> is_upper l"
  shows "(tolower c = l) = (c = l \<or> c = toupper_of l)"
proof -
  have "(tolower c = l) = ((of_char (tolower c) :: nat) = of_char l)"
    by (simp only: of_char_nat_eq)
  moreover have "(c = l) = ((of_char c :: nat) = of_char l)"
    by (simp only: of_char_nat_eq)
  moreover have "(c = toupper_of l) = ((of_char c :: nat) = of_char (toupper_of l))"
    by (simp only: of_char_nat_eq)
  moreover have "((of_char (tolower c) :: nat) = of_char l)
      = ((of_char c :: nat) = of_char l \<or> (of_char c :: nat) = of_char (toupper_of l))"
    unfolding of_char_tolower of_char_toupper_of using assms[unfolded is_upper_def]
    by (simp only: split: if_splits) arith
  ultimately show ?thesis by (simp only:)
qed

lemma toLower_eq_iff:
  "list_all (\<lambda>l. \<not> is_upper l) w \<Longrightarrow> (toLower s = w) = casing_of w s"
proof (induction s arbitrary: w)
  case Nil
  then show ?case by (auto simp: casing_of_def)
next
  case (Cons c s)
  show ?case
  proof (cases w)
    case Nil
    then show ?thesis by (simp add: casing_of_def)
  next
    case (Cons l w')
    with Cons.prems have l: "\<not> is_upper l" and w': "list_all (\<lambda>l. \<not> is_upper l) w'" by simp_all
    from Cons.IH[OF w'] tolower_eq_iff[OF l, of c] show ?thesis
      unfolding Cons by (simp add: casing_of_def)
  qed
qed

lemma no_upper: 
  "list_all (\<lambda>l. \<not> is_upper l) ''true''" "list_all (\<lambda>l. \<not> is_upper l) ''1''"
  "list_all (\<lambda>l. \<not> is_upper l) ''yes''" "list_all (\<lambda>l. \<not> is_upper l) ''false''"
  "list_all (\<lambda>l. \<not> is_upper l) ''0''" "list_all (\<lambda>l. \<not> is_upper l) ''no''"
  by (simp_all add: is_upper_def)

text \<open>
  C8: \<open>parseBool\<close> yields true (1, no warning) exactly for the casings of
  \<^verbatim>\<open>true\<close>, \<^verbatim>\<open>1\<close>, \<^verbatim>\<open>yes\<close>; false (0, no warning) for the casings of \<^verbatim>\<open>false\<close>, \<^verbatim>\<open>0\<close>,
  \<^verbatim>\<open>no\<close>; and for every other string false with one line of warning on the standard
  output, which shows the lower-cased string between quotes.
\<close>

theorem parseBool_casings:
  "parseBool (Some s) =
     (if casing_of ''true'' s \<or> casing_of ''1'' s \<or> casing_of ''yes'' s then (1, [])
      else if casing_of ''false'' s \<or> casing_of ''0'' s \<or> casing_of ''no'' s then (0, [])
      else (0, [Printf (''Warning: Unrecognized boolean value '' @ [CHR 0x27] @ toLower s
                        @ [CHR 0x27] @ ''. Using FALSE.\<newline>'')]))"
  unfolding parseBool_def option.case Let_def bool_warning_def
  by (simp only: toLower_eq_iff[OF no_upper(1)] toLower_eq_iff[OF no_upper(2)]
      toLower_eq_iff[OF no_upper(3)] toLower_eq_iff[OF no_upper(4)]
      toLower_eq_iff[OF no_upper(5)] toLower_eq_iff[OF no_upper(6)])

text \<open>The tokens the spec lists, two mixed casings and two unrecognised tokens.\<close>

theorem parseBool_casings_witness:
  "parseBool (Some ''TRUE'') = (1, []) \<and> parseBool (Some ''true'') = (1, [])
   \<and> parseBool (Some ''1'') = (1, []) \<and> parseBool (Some ''yes'') = (1, [])
   \<and> parseBool (Some ''YES'') = (1, []) \<and> parseBool (Some ''Yes'') = (1, [])
   \<and> parseBool (Some ''FALSE'') = (0, []) \<and> parseBool (Some ''false'') = (0, [])
   \<and> parseBool (Some ''0'') = (0, []) \<and> parseBool (Some ''no'') = (0, [])
   \<and> parseBool (Some ''NO'') = (0, []) \<and> parseBool (Some ''fAlSe'') = (0, [])
   \<and> parseBool (Some ''On'')
       = (0, [Printf (''Warning: Unrecognized boolean value '' @ [CHR 0x27] @ ''on''
                      @ [CHR 0x27] @ ''. Using FALSE.\<newline>'')])
   \<and> parseBool (Some [])
       = (0, [Printf (''Warning: Unrecognized boolean value '' @ [CHR 0x27, CHR 0x27]
                      @ ''. Using FALSE.\<newline>'')])"
  using parseBool_casings[of "''TRUE''"] parseBool_casings[of "''true''"]
    parseBool_casings[of "''1''"] parseBool_casings[of "''yes''"]
    parseBool_casings[of "''YES''"] parseBool_casings[of "''Yes''"]
    parseBool_casings[of "''FALSE''"] parseBool_casings[of "''false''"]
    parseBool_casings[of "''0''"] parseBool_casings[of "''no''"]
    parseBool_casings[of "''NO''"] parseBool_casings[of "''fAlSe''"]
    parseBool_casings[of "''On''"] parseBool_casings[of "[]"]
  by (simp add: casing_of_def toupper_of_def tolower_def char_of_def bit_Suc_0_iff)

section \<open>Transport initialisation\<close>

lemma no_perror_banner: "\<not> list_ex is_perror (init_banner cfg)"
  by (simp add: init_banner_def)

text \<open>The two branches of \<open>platform_init\<close>.\<close>

lemma platform_init_pty:
  assumes "path cfg = []"
  shows "platform_init K sys cfg =
     (let master_fd = sys_posix_openpt sys in
         if master_fd = -1 then
           (cfg, init_banner cfg @ [Posix_openpt, Perror ''posix_openpt''])
         else if sys_grantpt sys master_fd = -1 then
           (cfg, init_banner cfg @
              [Posix_openpt, Grantpt master_fd, Perror ''grantpt/unlockpt'', Close master_fd])
         else if sys_unlockpt sys master_fd = -1 then
           (cfg, init_banner cfg @
              [Posix_openpt, Grantpt master_fd, Unlockpt master_fd,
               Perror ''grantpt/unlockpt'', Close master_fd])
         else
           (case sys_ptsname sys master_fd of
              None \<Rightarrow>
                (cfg, init_banner cfg @
                   [Posix_openpt, Grantpt master_fd, Unlockpt master_fd, Ptsname master_fd,
                    Perror ''ptsname'', Close master_fd])
            | Some slave_name \<Rightarrow>
                (let cfg1 = cfg\<lparr>path := strncpy_path K slave_name\<rparr>;
                     cfg2 = cfg1\<lparr>fd := master_fd\<rparr>
                 in (cfg2, init_banner cfg @
                      [Posix_openpt, Grantpt master_fd, Unlockpt master_fd, Ptsname master_fd,
                       Printf (''  Created pty device: '' @ path cfg2 @ ''\<newline>''),
                       Fflush_stdout]))))"
  unfolding platform_init_def by (simp only: assms simp_thms if_True)

lemma platform_init_tty:
  assumes "path cfg \<noteq> []"
  shows "platform_init K sys cfg =
        (let cfg1 = cfg\<lparr>fd := sys_open sys (path cfg)\<rparr> in
         if fd cfg1 = -1 then
           (cfg1, init_banner cfg @ [Open_rdwr (path cfg), Perror ''open''])
         else
           (let (r, tty0) = sys_tcgetattr sys (fd cfg1) in
            if r \<noteq> 0 then
              (cfg1\<lparr>fd := -1\<rparr>, init_banner cfg @
                 [Open_rdwr (path cfg), Tcgetattr (fd cfg1), Perror ''tcgetattr'',
                  Close (fd cfg1)])
            else
              (let tty = raw_8N1 K sys cfg1 tty0 in
               if sys_tcsetattr sys (fd cfg1) tty \<noteq> 0 then
                 (cfg1\<lparr>fd := -1\<rparr>, init_banner cfg @
                    [Open_rdwr (path cfg), Tcgetattr (fd cfg1), Tcsetattr (fd cfg1) tty,
                     Perror ''tcsetattr'', Close (fd cfg1)])
               else
                 (cfg1, init_banner cfg @
                    [Open_rdwr (path cfg), Tcgetattr (fd cfg1), Tcsetattr (fd cfg1) tty]))))"
  unfolding platform_init_def by (simp only: assms simp_thms if_False)

lemma pty_failure_fd:
  assumes "path cfg = []" "reports_failure (snd (platform_init K sys cfg))"
  shows "fst (platform_init K sys cfg) = cfg"
  using assms(2) unfolding platform_init_pty[OF assms(1)] reports_failure_def
  by (simp add: Let_def no_perror_banner split: if_splits option.splits)

lemma tty_failure_fd:
  assumes "path cfg \<noteq> []" "reports_failure (snd (platform_init K sys cfg))"
  shows "fd (fst (platform_init K sys cfg)) = -1"
  using assms(2) unfolding platform_init_tty[OF assms(1)] reports_failure_def
  by (auto simp: Let_def no_perror_banner split: if_splits prod.splits)

lemma reports_failure_step_fails:
  "reports_failure (snd (platform_init K sys cfg)) = step_fails K sys cfg"
proof (cases "path cfg = []")
  case True
  show ?thesis
    unfolding platform_init_pty[OF True] reports_failure_def step_fails_def
    by (simp add: True Let_def no_perror_banner split: option.splits)
next
  case False
  show ?thesis
    unfolding platform_init_tty[OF False] reports_failure_def step_fails_def
    by (simp add: False Let_def no_perror_banner split: prod.splits)
qed

lemma pty_success:
  assumes "path cfg = []" "\<not> reports_failure (snd (platform_init K sys cfg))"
  shows "\<exists>name. sys_ptsname sys (sys_posix_openpt sys) = Some name
     \<and> sys_posix_openpt sys \<noteq> -1
     \<and> fst (platform_init K sys cfg) = cfg\<lparr>path := strncpy_path K name, fd := sys_posix_openpt sys\<rparr>"
  using assms(2) unfolding platform_init_pty[OF assms(1)] reports_failure_def
  by (simp add: Let_def no_perror_banner split: if_splits option.splits)

text \<open>
  C2: from a configuration with an empty path, an initialisation that reports no
  failure has allocated a pseudo-terminal pair with \<^verbatim>\<open>posix_openpt\<close>; the handle is the
  master descriptor, which is not \<open>-1\<close>, and the path is the slave name that \<^verbatim>\<open>ptsname\<close>
  returned, cut to the buffer (\<^verbatim>\<open>SERIAL_PATH_MAX - 1\<close> characters). The path is the whole
  name when the name fits the buffer, and it is not empty when the name is not empty
  and the buffer holds more than the terminating NUL.
\<close>

theorem pty_init_sets_handle_and_path:
  assumes "path cfg = []" and "\<not> reports_failure (snd (platform_init K sys cfg))"
  shows "\<exists>name. sys_ptsname sys (sys_posix_openpt sys) = Some name
     \<and> Posix_openpt \<in> set (snd (platform_init K sys cfg))
     \<and> fd (fst (platform_init K sys cfg)) = sys_posix_openpt sys
     \<and> fd (fst (platform_init K sys cfg)) \<noteq> -1
     \<and> path (fst (platform_init K sys cfg)) = strncpy_path K name
     \<and> (length name < SERIAL_PATH_MAX K \<longrightarrow> path (fst (platform_init K sys cfg)) = name)
     \<and> (name \<noteq> [] \<and> 1 < SERIAL_PATH_MAX K \<longrightarrow> path (fst (platform_init K sys cfg)) \<noteq> [])"
proof -
  from pty_success[OF assms] obtain name where
    n: "sys_ptsname sys (sys_posix_openpt sys) = Some name"
    and m: "sys_posix_openpt sys \<noteq> -1"
    and c: "fst (platform_init K sys cfg)
            = cfg\<lparr>path := strncpy_path K name, fd := sys_posix_openpt sys\<rparr>"
    by blast
  have p: "Posix_openpt \<in> set (snd (platform_init K sys cfg))"
    unfolding platform_init_pty[OF assms(1)]
    by (simp add: Let_def split: option.splits)
  have "strncpy_path K name \<noteq> []" if "name \<noteq> []" "1 < SERIAL_PATH_MAX K"
    using that by (cases name) (simp_all add: strncpy_path_def take_Cons')
  with n m p show ?thesis
    unfolding c by (intro exI[of _ name]) (simp add: strncpy_path_def)
qed

theorem pty_init_sets_handle_and_path_witness:
  "path serial_device = []
   \<and> \<not> reports_failure (snd (platform_init linux_termbits quiet_os serial_device))
   \<and> fd (fst (platform_init linux_termbits quiet_os serial_device)) = 3
   \<and> path (fst (platform_init linux_termbits quiet_os serial_device)) = ''/dev/pts/4''"
proof -
  let ?c = "fst (platform_init linux_termbits quiet_os serial_device)"
  have a: "path serial_device = []" by (simp add: serial_device_def)
  have b: "\<not> reports_failure (snd (platform_init linux_termbits quiet_os serial_device))"
    by (simp add: platform_init_pty[OF a] quiet_os_def reports_failure_def init_banner_def
        Let_def)
  from pty_init_sets_handle_and_path[OF a b] obtain name where
    n: "sys_ptsname quiet_os (sys_posix_openpt quiet_os) = Some name"
    and f: "fd ?c = sys_posix_openpt quiet_os"
    and p: "length name < SERIAL_PATH_MAX linux_termbits \<longrightarrow> path ?c = name"
    by blast
  from n have name: "name = ''/dev/pts/4''" by (simp add: quiet_os_def)
  have "length name < SERIAL_PATH_MAX linux_termbits"
    by (simp add: name SERIAL_PATH_MAX_def linux_termbits_def)
  with p have "path ?c = ''/dev/pts/4''" by (simp add: name)
  moreover from f have "fd ?c = 3" by (simp add: quiet_os_def)
  ultimately show ?thesis using a b by simp
qed

section \<open>Readiness queries\<close>

text \<open>
  C4: with the handle at the closed sentinel \<open>-1\<close> both readiness queries return false
  (0) and issue no system call at all; with any other handle each issues exactly one
  \<^verbatim>\<open>select\<close>, whose timeout is zero seconds and zero microseconds.
\<close>

theorem readiness_closed:
  "(fd cfg = -1 \<longrightarrow>
      platform_serial_has_data sys cfg = (0, []) \<and> platform_serial_can_write sys cfg = (0, []))
   \<and> (fd cfg \<noteq> -1 \<longrightarrow>
      snd (platform_serial_has_data sys cfg) = [Select_read (fd cfg + 1) 0 0]
      \<and> snd (platform_serial_can_write sys cfg) = [Select_write (fd cfg + 1) 0 0])"
  by (simp add: platform_serial_has_data_def platform_serial_can_write_def split: prod.splits)

theorem readiness_closed_witness:
  "platform_serial_has_data quiet_os serial_device = (0, [])
   \<and> platform_serial_can_write quiet_os serial_device = (0, [])
   \<and> snd (platform_serial_has_data quiet_os (serial_device\<lparr>fd := 3\<rparr>)) = [Select_read 4 0 0]
   \<and> snd (platform_serial_can_write quiet_os (serial_device\<lparr>fd := 3\<rparr>)) = [Select_write 4 0 0]"
  using readiness_closed[of serial_device quiet_os]
    readiness_closed[of "serial_device\<lparr>fd := 3\<rparr>" quiet_os]
  by (simp add: serial_device_def)

section \<open>What the parser does to the configuration and the trace\<close>

lemma long_option_found_text:
  "long_option_found pe os p rest d = (c, d', ev) \<Longrightarrow> list_all is_text ev"
  by (auto simp: long_option_found_def Let_def split: if_splits)

lemma process_long_option_text:
  "process_long_option pe os lo d = (c, d', ev) \<Longrightarrow> list_all is_text ev"
  by (auto simp: process_long_option_def Let_def split: if_splits option.splits list.splits
      dest: long_option_found_text)

lemma short_option_text:
  "short_option pe os d = (c, d', ev) \<Longrightarrow> list_all is_text ev"
  by (auto simp: short_option_def Let_def split: if_splits list.splits)

lemma getopt_advance_text:
  "getopt_advance pe os lo d = Inl (c, d', ev) \<Longrightarrow> list_all is_text ev"
  by (auto simp: getopt_advance_def Let_def split: if_splits dest: process_long_option_text)

lemma getopt_long_text:
  assumes "getopt_long pc os lo d = (c, d', ev)"
  shows "list_all is_text ev"
proof (cases "argc d < 1")
  case True
  with assms show ?thesis by (simp add: getopt_long_def)
next
  case False
  define d1 where "d1 = getopt_prepare pc os d"
  define pe where "pe = (take 1 (optstring_body os) \<noteq> '':'')"
  have eq: "(if nextchar d1 = [] then
              (case getopt_advance pe (optstring_body os) lo d1 of
                 Inl r \<Rightarrow> r
               | Inr d2 \<Rightarrow> short_option pe (optstring_body os) d2)
            else short_option pe (optstring_body os) d1) = (c, d', ev)"
    using assms False
    unfolding getopt_long_def Let_def d1_def[symmetric] pe_def[symmetric]
    by simp
  show ?thesis
  proof (cases "nextchar d1 = []")
    case True
    show ?thesis
    proof (cases "getopt_advance pe (optstring_body os) lo d1")
      case (Inl r)
      with eq True have "getopt_advance pe (optstring_body os) lo d1 = Inl (c, d', ev)" by simp
      then show ?thesis by (rule getopt_advance_text)
    next
      case (Inr d2)
      with eq True have "short_option pe (optstring_body os) d2 = (c, d', ev)" by simp
      then show ?thesis by (rule short_option_text)
    qed
  next
    case False
    with eq have "short_option pe (optstring_body os) d1 = (c, d', ev)" by simp
    then show ?thesis by (rule short_option_text)
  qed
qed

lemma baudRateFromString_text: "list_all is_text (snd (baudRateFromString K v))"
  by (simp add: baudRateFromString_def baud_warning_def split: option.splits)

lemma parseBool_text: "list_all is_text (snd (parseBool v))"
  by (simp add: parseBool_def bool_warning_def Let_def split: option.splits)

lemma printUsage_text: "list_all is_text (printUsage p)"
  by (simp add: printUsage_def)

text \<open>What one turn of the loop does, by the option code.\<close>

lemma parse_step_cases:
  assumes g: "getopt_long pc ''t:b:f:h'' longOpts d = (opt, d1, ev1)"
  shows "parse_step K pc d cfg =
     (if opt = -1 then (Return 1, d1, cfg, ev1)
      else if opt = of_char CHR ''t'' then
        (Continue, snd (option_value d1),
         (case fst (option_value d1) of
            Some v \<Rightarrow> cfg\<lparr>path := strncpy_path K v\<rparr> | None \<Rightarrow> cfg\<lparr>path := []\<rparr>), ev1)
      else if opt = of_char CHR ''b'' then
        (Continue, snd (option_value d1),
         (case fst (option_value d1) of
            Some v \<Rightarrow> cfg\<lparr>baud := fst (baudRateFromString K (Some v))\<rparr> | None \<Rightarrow> cfg),
         ev1 @ (case fst (option_value d1) of
            Some v \<Rightarrow> snd (baudRateFromString K (Some v)) | None \<Rightarrow> []))
      else if opt = of_char CHR ''f'' then
        (Continue,
         (case fst (option_value d1) of
            Some v \<Rightarrow> toLower_in_place (snd (option_value d1)) v
          | None \<Rightarrow> snd (option_value d1)),
         (case fst (option_value d1) of
            Some v \<Rightarrow> cfg\<lparr>hwflow := fst (parseBool (Some v))\<rparr> | None \<Rightarrow> cfg),
         ev1 @ (case fst (option_value d1) of
            Some v \<Rightarrow> snd (parseBool (Some v)) | None \<Rightarrow> []))
      else (Return 0, d1, cfg, ev1 @ printUsage (progname d1)))"
  unfolding parse_step_def g
  by (simp add: Let_def split: prod.splits option.splits)


lemma parse_step_summary:
  assumes g: "getopt_long pc ''t:b:f:h'' longOpts d = (opt, d1, ev1)"
    and p: "parse_step K pc d cfg = (x, d', cfg', ev)"
  shows "fd cfg' = fd cfg" "list_all is_text ev"
    "(x = Continue) = value_option opt" "(x = Return 1) = (opt = -1)"
    "(x = Return 0) = rejected opt"
    "x = Continue \<Longrightarrow>
       d' = snd (option_value d1) \<or> (\<exists>v. d' = toLower_in_place (snd (option_value d1)) v)"
    "x = Return 0 \<Longrightarrow> ev = ev1 @ printUsage (progname d')"
    "x = Return 0 \<Longrightarrow> cfg' = cfg"
    "x = Continue \<or> x = Return 0 \<or> x = Return 1"
proof -
  note t = getopt_long_text[OF g] baudRateFromString_text parseBool_text printUsage_text
  note c = p[unfolded parse_step_cases[OF g, of K cfg]]
  show "fd cfg' = fd cfg" using c by (auto split: if_splits option.splits)
  show "list_all is_text ev" using c t by (auto split: if_splits option.splits)
  show "(x = Continue) = value_option opt" using c
    by (auto simp: value_option_def split: if_splits)
  show "(x = Return 1) = (opt = -1)" using c by (auto split: if_splits)
  show "(x = Return 0) = rejected opt" using c
    by (auto simp: value_option_def rejected_def split: if_splits)
  show "x = Continue \<Longrightarrow>
       d' = snd (option_value d1) \<or> (\<exists>v. d' = toLower_in_place (snd (option_value d1)) v)"
    using c by (auto split: if_splits option.splits)
  show "x = Return 0 \<Longrightarrow> ev = ev1 @ printUsage (progname d')" using c by (auto split: if_splits)
  show "x = Return 0 \<Longrightarrow> cfg' = cfg" using c by (auto split: if_splits)
  show "x = Continue \<or> x = Return 0 \<or> x = Return 1" using c by (auto split: if_splits)
qed

lemma parseArgs_loop_summary:
  "parseArgs_loop K pc d cfg tr = (r, d', cfg', tr') \<Longrightarrow>
     fd cfg' = fd cfg \<and> (\<exists>ev. tr' = tr @ ev \<and> list_all is_text ev) \<and> (r = 0 \<or> r = 1)
     \<and> (r = 0 \<longrightarrow> suffix (printUsage (progname d')) tr')"
proof (induction K pc d cfg tr arbitrary: r d' cfg' tr' rule: parseArgs_loop.induct)
  case (1 K pc d cfg tr)
  obtain opt d1 ev1 where g: "getopt_long pc ''t:b:f:h'' longOpts d = (opt, d1, ev1)"
    by (cases "getopt_long pc ''t:b:f:h'' longOpts d") auto
  obtain x d2 cfg2 ev where p: "parse_step K pc d cfg = (x, d2, cfg2, ev)"
    by (cases "parse_step K pc d cfg") auto
  note s = parse_step_summary[OF g p]
  show ?case
  proof (cases x)
    case (Return r0)
    with "1.prems" p have e: "r = r0" "d' = d2" "cfg' = cfg2" "tr' = tr @ ev"
      by (simp_all add: parseArgs_loop.simps[of K pc d cfg tr])
    from Return s(9) have r01: "r0 = 0 \<or> r0 = 1" by auto
    have "r0 = 0 \<longrightarrow> suffix (printUsage (progname d2)) (tr @ ev)"
      using s(7) Return by (auto simp: suffix_def)
    then show ?thesis using e s(1,2) r01 by simp
  next
    case Continue
    with "1.prems" p have rec: "parseArgs_loop K pc d2 cfg2 (tr @ ev) = (r, d', cfg', tr')"
      by (simp add: parseArgs_loop.simps[of K pc d cfg tr])
    note ih = "1.IH"[OF p[symmetric] Continue refl refl rec]
    from ih s(1,2) show ?thesis by auto
  qed
qed

lemma parseArgs_summary:
  assumes "parseArgs K pc av cfg = (r, d', cfg', tr')"
  shows "fd cfg' = fd cfg" "list_all is_text tr'" "r = 0 \<or> r = 1"
    "r = 0 \<Longrightarrow> suffix (printUsage (progname d')) tr'"
  using parseArgs_loop_summary[OF assms[unfolded parseArgs_def]]
  by auto

text \<open>Unfolding the scanner on a concrete argument list.\<close>

lemmas scan_defs =
  parse_step_def getopt_long_def getopt_prepare_def getopt_initialize_def
  getopt_advance_def next_element_def permute_step_def dashdash_step_def exchange_def
  skip_nonoptions_def process_long_option_def long_option_found_def short_option_def
  option_value_def NONOPTION_P_def argc_def progname_def optstring_body_def longOpts_def
  option_matches_def option_differs_def getopt_start_def QUESTION_def
  optional_argument_def no_argument_def required_argument_def quoted_def
  value_option_def rejected_def toLower_in_place_def

section \<open>The handle while the arguments are parsed\<close>

text \<open>
  C9: \<open>parseArgs\<close> never writes the handle. Whatever the argument list, also one that
  names a device with \<^verbatim>\<open>--tty\<close>, the handle is still \<open>-1\<close> where \<open>main\<close> chooses its
  banner: the test \<^verbatim>\<open>fd > -1\<close> is false, the banner is the one of the simulated device,
  and that banner is in the trace of every start that gets past parsing.
\<close>

theorem banner_always_simulated:
  "(case parseArgs K pc av serial_device of
      (ok, d, cfg, tr) \<Rightarrow>
        fd cfg = -1 \<and> \<not> fd cfg > -1
        \<and> device_banner cfg = [Printf ''Using simulated pty device:\<newline>''])
   \<and> (case startup K pc sys av of
         Inl out \<Rightarrow> fst (parseArgs K pc av serial_device) = 0
       | Inr (cfg2, tr2) \<Rightarrow>
           fst (parseArgs K pc av serial_device) \<noteq> 0
           \<and> Printf ''Using simulated pty device:\<newline>'' \<in> set tr2)"
proof -
  obtain ok d cfg tr where p: "parseArgs K pc av serial_device = (ok, d, cfg, tr)"
    by (cases "parseArgs K pc av serial_device") auto
  from parseArgs_summary(1)[OF p] have f: "fd cfg = -1" by (simp add: serial_device_def)
  then have b: "device_banner cfg = [Printf ''Using simulated pty device:\<newline>'']"
    by (simp add: device_banner_def)
  obtain cfg2 tr2 where m: "mctp_init K sys cfg = (cfg2, tr2)"
    by (cases "mctp_init K sys cfg") auto
  show ?thesis
    by (cases "ok = 0") (simp_all add: p f b startup_def m Let_def)
qed

theorem banner_always_simulated_witness:
  "(case parseArgs linux_termbits False [''prog'', ''--tty'', ''/dev/ttyS0''] serial_device of
      (ok, d, cfg, tr) \<Rightarrow>
        ok = 1 \<and> path cfg = ''/dev/ttyS0'' \<and> fd cfg = -1
        \<and> device_banner cfg = [Printf ''Using simulated pty device:\<newline>''])"
  using banner_always_simulated[of linux_termbits False "[''prog'', ''--tty'', ''/dev/ttyS0'']" quiet_os]
  by (simp add: parseArgs_def parseArgs_loop.simps scan_defs Let_def
        strncpy_path_def SERIAL_PATH_MAX_def linux_termbits_def serial_device_def)

section \<open>A failed parse keeps what it has changed\<close>

text \<open>
  C10: parsing is not atomic. On \<^verbatim>\<open>--baud 9600 --help\<close> the parser returns failure and
  the baud field already holds the code for 9600; on \<^verbatim>\<open>--hwflow TRUE --help\<close> it returns
  failure and the flow-control flag is set. So some argument list makes the parser
  fail with a configuration that is no longer the one of the process start.
\<close>

theorem failed_parse_not_rolled_back:
  "(case parseArgs K pc [''prog'', ''--baud'', ''9600'', ''--help''] serial_device of
      (ok, d, cfg, tr) \<Rightarrow> ok = 0 \<and> cfg = serial_device\<lparr>baud := B9600 K\<rparr>)
   \<and> (case parseArgs K pc [''prog'', ''--hwflow'', ''TRUE'', ''--help''] serial_device of
      (ok, d, cfg, tr) \<Rightarrow> ok = 0 \<and> cfg = serial_device\<lparr>hwflow := 1\<rparr>)
   \<and> (\<exists>av. case parseArgs K pc av serial_device of
      (ok, d, cfg, tr) \<Rightarrow> ok = 0 \<and> cfg \<noteq> serial_device)"
proof -
  have 1: "(case parseArgs K pc [''prog'', ''--baud'', ''9600'', ''--help''] serial_device of
      (ok, d, cfg, tr) \<Rightarrow> ok = 0 \<and> cfg = serial_device\<lparr>baud := B9600 K\<rparr>)"
    by (cases pc)
       (simp_all add: parseArgs_def parseArgs_loop.simps scan_defs Let_def
          baudRateFromString_def baudMap_def)
  have 2: "(case parseArgs K pc [''prog'', ''--hwflow'', ''TRUE'', ''--help''] serial_device of
      (ok, d, cfg, tr) \<Rightarrow> ok = 0 \<and> cfg = serial_device\<lparr>hwflow := 1\<rparr>)"
    by (cases pc)
       (simp_all add: parseArgs_def parseArgs_loop.simps scan_defs Let_def
          parseBool_def tolower_def char_of_def bit_Suc_0_iff)
  have "serial_device\<lparr>hwflow := 1\<rparr> \<noteq> serial_device"
    by (simp add: serial_device_def)
  with 2 have 3: "\<exists>av. case parseArgs K pc av serial_device of
      (ok, d, cfg, tr) \<Rightarrow> ok = 0 \<and> cfg \<noteq> serial_device"
    by (intro exI[of _ "[''prog'', ''--hwflow'', ''TRUE'', ''--help'']"])
       (auto split: prod.splits)
  from 1 2 3 show ?thesis by simp
qed

text \<open>With the speed codes of Linux the first list leaves the code 13 in the baud field.\<close>

theorem failed_parse_not_rolled_back_witness:
  "(case parseArgs linux_termbits False [''prog'', ''--baud'', ''9600'', ''--help'']
           serial_device of
      (ok, d, cfg, tr) \<Rightarrow>
        ok = 0 \<and> cfg = \<lparr>baud = 13, hwflow = 0, path = [], fd = -1\<rparr> \<and> cfg \<noteq> serial_device)"
  using failed_parse_not_rolled_back[of linux_termbits False]
  by (auto simp: serial_device_def linux_termbits_def split: prod.splits)

section \<open>Baud tokens\<close>

text \<open>
  C7: each of the seven tokens is sent to its own speed code, without a warning, so the
  mapping is injective on them as soon as the seven codes of \<^verbatim>\<open><termios.h>\<close> differ from
  each other. Every other token is sent to the code for 115200 with one line of warning
  on the standard output, which names the token, and the parser goes on: \<^verbatim>\<open>--baud=tok\<close>
  and \<^verbatim>\<open>-b tok\<close> return success with that code in the baud field and the warning as
  the only thing written, and so does \<^verbatim>\<open>--baud tok\<close> when the token does not start with
  \<open>-\<close>. (After \<^verbatim>\<open>--baud\<close> written without \<open>=\<close> the parser takes the next element as the
  value only if it does not start with \<open>-\<close>: in \<^verbatim>\<open>--baud -5\<close> the element \<^verbatim>\<open>-5\<close> is read as
  an option, not as a baud token.)
\<close>

theorem baud_token_mapping:
  "map (\<lambda>s. baudRateFromString K (Some s))
       [''4800'', ''9600'', ''19200'', ''38400'', ''57600'', ''115200'', ''230400'']
     = [(B4800 K, []), (B9600 K, []), (B19200 K, []), (B38400 K, []), (B57600 K, []),
        (B115200 K, []), (B230400 K, [])]
   \<and> (distinct (map snd (baudMap K)) \<longrightarrow>
        inj_on (\<lambda>s. fst (baudRateFromString K (Some s)))
          {''4800'', ''9600'', ''19200'', ''38400'', ''57600'', ''115200'', ''230400''})
   \<and> (s \<notin> {''4800'', ''9600'', ''19200'', ''38400'', ''57600'', ''115200'', ''230400''} \<longrightarrow>
        baudRateFromString K (Some s) = (B115200 K, [Printf (''Warning: Unrecognized baud rate '' @ [CHR 0x27] @ s @ [CHR 0x27]
                    @ '', using default 115200.\<newline>'')])
        \<and> (case parseArgs K pc [''prog'', ''--baud='' @ s] serial_device of
             (ok, d, cfg, tr) \<Rightarrow>
               ok = 1 \<and> cfg = serial_device\<lparr>baud := B115200 K\<rparr> \<and> tr = [Printf (''Warning: Unrecognized baud rate '' @ [CHR 0x27] @ s @ [CHR 0x27]
                    @ '', using default 115200.\<newline>'')])
        \<and> (case parseArgs K pc [''prog'', ''-b'', s] serial_device of
             (ok, d, cfg, tr) \<Rightarrow>
               ok = 1 \<and> cfg = serial_device\<lparr>baud := B115200 K\<rparr> \<and> tr = [Printf (''Warning: Unrecognized baud rate '' @ [CHR 0x27] @ s @ [CHR 0x27]
                    @ '', using default 115200.\<newline>'')])
        \<and> (take 1 s \<noteq> ''-'' \<longrightarrow>
             (case parseArgs K pc [''prog'', ''--baud'', s] serial_device of
                (ok, d, cfg, tr) \<Rightarrow>
                  ok = 1 \<and> cfg = serial_device\<lparr>baud := B115200 K\<rparr>
                  \<and> tr = [Printf (''Warning: Unrecognized baud rate '' @ [CHR 0x27] @ s @ [CHR 0x27]
                    @ '', using default 115200.\<newline>'')])))"
proof -
  have 1: "map (\<lambda>s. baudRateFromString K (Some s))
       [''4800'', ''9600'', ''19200'', ''38400'', ''57600'', ''115200'', ''230400'']
     = [(B4800 K, []), (B9600 K, []), (B19200 K, []), (B38400 K, []), (B57600 K, []),
        (B115200 K, []), (B230400 K, [])]"
    by (simp add: baudRateFromString_def baudMap_def)
  have 2: "inj_on (\<lambda>s. fst (baudRateFromString K (Some s)))
          {''4800'', ''9600'', ''19200'', ''38400'', ''57600'', ''115200'', ''230400''}"
    if "distinct (map snd (baudMap K))"
    using that by (simp add: baudRateFromString_def baudMap_def)
  have 3: "baudRateFromString K (Some s) = (B115200 K, [Printf (''Warning: Unrecognized baud rate '' @ [CHR 0x27] @ s @ [CHR 0x27]
                    @ '', using default 115200.\<newline>'')])"
    if "s \<notin> {''4800'', ''9600'', ''19200'', ''38400'', ''57600'', ''115200'', ''230400''}"
    using that by (simp add: baudRateFromString_def baudMap_def baud_warning_def)
  have 4: "(case parseArgs K pc [''prog'', ''--baud='' @ s] serial_device of
             (ok, d, cfg, tr) \<Rightarrow>
               ok = 1 \<and> cfg = serial_device\<lparr>baud := B115200 K\<rparr> \<and> tr = [Printf (''Warning: Unrecognized baud rate '' @ [CHR 0x27] @ s @ [CHR 0x27]
                    @ '', using default 115200.\<newline>'')])"
    if "s \<notin> {''4800'', ''9600'', ''19200'', ''38400'', ''57600'', ''115200'', ''230400''}"
    by (cases pc)
       (simp_all add: parseArgs_def parseArgs_loop.simps scan_defs Let_def 3[OF that])
  have 5: "(case parseArgs K pc [''prog'', ''-b'', s] serial_device of
             (ok, d, cfg, tr) \<Rightarrow>
               ok = 1 \<and> cfg = serial_device\<lparr>baud := B115200 K\<rparr> \<and> tr = [Printf (''Warning: Unrecognized baud rate '' @ [CHR 0x27] @ s @ [CHR 0x27]
                    @ '', using default 115200.\<newline>'')])"
    if "s \<notin> {''4800'', ''9600'', ''19200'', ''38400'', ''57600'', ''115200'', ''230400''}"
    by (cases pc)
       (simp_all add: parseArgs_def parseArgs_loop.simps scan_defs Let_def 3[OF that])
  have 6: "(case parseArgs K pc [''prog'', ''--baud'', s] serial_device of
                (ok, d, cfg, tr) \<Rightarrow>
                  ok = 1 \<and> cfg = serial_device\<lparr>baud := B115200 K\<rparr>
                  \<and> tr = [Printf (''Warning: Unrecognized baud rate '' @ [CHR 0x27] @ s @ [CHR 0x27]
                    @ '', using default 115200.\<newline>'')])"
    if "s \<notin> {''4800'', ''9600'', ''19200'', ''38400'', ''57600'', ''115200'', ''230400''}"
      and "take 1 s \<noteq> ''-''"
    using that(2)
    by (cases pc)
       (simp_all add: parseArgs_def parseArgs_loop.simps scan_defs Let_def 3[OF that(1)])
  show ?thesis
    apply (intro conjI impI)
         apply (rule 1)
        apply (erule 2)
       apply (erule 3)
      apply (erule 4)
     apply (erule 5)
    apply (erule (1) 6)
    done
qed

theorem baud_token_mapping_witness:
  "distinct (map snd (baudMap linux_termbits))
   \<and> inj_on (\<lambda>s. fst (baudRateFromString linux_termbits (Some s)))
          {''4800'', ''9600'', ''19200'', ''38400'', ''57600'', ''115200'', ''230400''}
   \<and> ''bogus'' \<notin> {''4800'', ''9600'', ''19200'', ''38400'', ''57600'', ''115200'', ''230400''}
   \<and> take 1 ''bogus'' \<noteq> ''-''
   \<and> baudRateFromString linux_termbits (Some ''bogus'') = (4098, [Printf (''Warning: Unrecognized baud rate '' @ [CHR 0x27] @ ''bogus'' @ [CHR 0x27]
                    @ '', using default 115200.\<newline>'')])
   \<and> (case parseArgs linux_termbits False [''prog'', ''--baud'', ''bogus''] serial_device of
         (ok, d, cfg, tr) \<Rightarrow>
           ok = 1 \<and> cfg = serial_device\<lparr>baud := 4098\<rparr> \<and> tr = [Printf (''Warning: Unrecognized baud rate '' @ [CHR 0x27] @ ''bogus'' @ [CHR 0x27]
                    @ '', using default 115200.\<newline>'')])"
  using baud_token_mapping[of linux_termbits "''bogus''" False]
  by (simp add: baudMap_def linux_termbits_def)

section \<open>Start of the process\<close>

lemma startup_unfold:
  assumes "parseArgs K pc av serial_device = (ok, d, cfg1, tr1)"
  shows "startup K pc sys av =
     (if ok = 0 then
        Inl \<lparr>exit_status = EXIT_FAILURE, device = cfg1,
             trace = [Signal SIGINT, Signal SIGTERM] @ tr1\<rparr>
      else
        Inr (fst (platform_init K sys cfg1),
             [Signal SIGINT, Signal SIGTERM] @ tr1 @ device_banner cfg1
             @ Mctp ''mctp_init'' # snd (platform_init K sys cfg1)))"
  by (simp add: startup_def assms Let_def mctp_init_def split: prod.splits)

lemma text_not_perror: "list_all is_text tr \<Longrightarrow> \<not> list_ex is_perror tr"
  by (induction tr) (auto elim: is_text.elims)

lemma text_not_close: "list_all is_text tr \<Longrightarrow> filter is_close tr = []"
  by (induction tr) (auto elim: is_text.elims)

lemma text_not_transport: "list_all is_text tr \<Longrightarrow> filter transport_event tr = []"
  by (induction tr) (auto elim: is_text.elims)

lemma device_banner_text: "list_all is_text (device_banner cfg)"
  by (simp add: device_banner_def)

lemma closed_init_failure:
  assumes "reports_failure (snd (platform_init K sys cfg))" "fd cfg = -1 \<or> path cfg \<noteq> []"
  shows "fd (fst (platform_init K sys cfg)) = -1"
proof (cases "path cfg = []")
  case True
  with assms(2) have "fd cfg = -1" by simp
  with pty_failure_fd[OF True assms(1)] show ?thesis by simp
next
  case False
  from tty_failure_fd[OF False assms(1)] show ?thesis .
qed

text \<open>
  C3: \<open>platform_init\<close> is entered once, from \<^verbatim>\<open>mctp_init\<close> in \<open>main\<close>, with the configuration
  that \<open>parseArgs\<close> has left, in which the handle is still \<open>-1\<close>: the parser never writes
  it. The branch of a named device assigns the handle from \<^verbatim>\<open>open\<close> and sets it back to
  \<open>-1\<close> when a later step fails; the branch of the empty path writes the handle only
  when the pair is complete. So, whatever the argument list and whatever the operating
  system answers, an initialisation that fails at any step leaves the handle at \<open>-1\<close>;
  it returns, it does not end the process: every start that gets past parsing reaches
  the control loop, with the handle at \<open>-1\<close> if a failure was reported. The same holds
  for \<open>platform_init\<close> on every configuration whose handle is \<open>-1\<close> when it starts, or
  whose path is not empty. A failure is reported exactly when one of the seven steps
  fails.
\<close>

theorem failed_init_leaves_closed:
  "(case parseArgs K pc av serial_device of
      (ok, d, cfg1, tr1) \<Rightarrow>
        reports_failure (snd (platform_init K sys cfg1))
          \<longrightarrow> fd (fst (platform_init K sys cfg1)) = -1)
   \<and> (fst (parseArgs K pc av serial_device) \<noteq> 0 \<longrightarrow>
        (\<exists>cfg2 tr2. startup K pc sys av = Inr (cfg2, tr2)
           \<and> (reports_failure tr2 \<longrightarrow> fd cfg2 = -1)))
   \<and> (reports_failure (snd (platform_init K sys cfg)) \<and> (fd cfg = -1 \<or> path cfg \<noteq> [])
      \<longrightarrow> fd (fst (platform_init K sys cfg)) = -1)
   \<and> reports_failure (snd (platform_init K sys cfg)) = step_fails K sys cfg"
proof (intro conjI impI)
  show "reports_failure (snd (platform_init K sys cfg)) = step_fails K sys cfg"
    by (rule reports_failure_step_fails)
next
  obtain r d cfg1 tr1 where p: "parseArgs K pc av serial_device = (r, d, cfg1, tr1)"
    by (cases "parseArgs K pc av serial_device") auto
  from parseArgs_summary(1)[OF p] have f: "fd cfg1 = -1" by (simp add: serial_device_def)
  with closed_init_failure[of K sys cfg1]
  show "case parseArgs K pc av serial_device of
      (ok, d, cfg1, tr1) \<Rightarrow>
        reports_failure (snd (platform_init K sys cfg1))
          \<longrightarrow> fd (fst (platform_init K sys cfg1)) = -1"
    unfolding p by simp
next
  assume "reports_failure (snd (platform_init K sys cfg)) \<and> (fd cfg = -1 \<or> path cfg \<noteq> [])"
  then show "fd (fst (platform_init K sys cfg)) = -1"
    using closed_init_failure by blast
next
  assume ok: "fst (parseArgs K pc av serial_device) \<noteq> 0"
  obtain r d cfg1 tr1 where p: "parseArgs K pc av serial_device = (r, d, cfg1, tr1)"
    by (cases "parseArgs K pc av serial_device") auto
  from ok p have r: "r \<noteq> 0" by simp
  from parseArgs_summary(1,2)[OF p] have f: "fd cfg1 = -1" and t: "list_all is_text tr1"
    by (simp_all add: serial_device_def)
  let ?tr2 = "[Signal SIGINT, Signal SIGTERM] @ tr1 @ device_banner cfg1
             @ Mctp ''mctp_init'' # snd (platform_init K sys cfg1)"
  have s: "startup K pc sys av = Inr (fst (platform_init K sys cfg1), ?tr2)"
    using r by (simp add: startup_unfold[OF p])
  have "reports_failure ?tr2 = reports_failure (snd (platform_init K sys cfg1))"
    using text_not_perror[OF t] text_not_perror[OF device_banner_text[of cfg1]]
    by (simp add: reports_failure_def)
  with closed_init_failure[of K sys cfg1] f
  have "reports_failure ?tr2 \<longrightarrow> fd (fst (platform_init K sys cfg1)) = -1" by simp
  with s show "\<exists>cfg2 tr2. startup K pc sys av = Inr (cfg2, tr2)
           \<and> (reports_failure tr2 \<longrightarrow> fd cfg2 = -1)" by blast
qed

text \<open>
  One failure at each of the seven steps, from the closed handle, and a start of the
  process on an operating system without pseudo-terminals.
\<close>

theorem failed_init_leaves_closed_witness:
  "(reports_failure (snd (platform_init linux_termbits
       (quiet_os\<lparr>sys_posix_openpt := -1\<rparr>) serial_device))
    \<and> fd (fst (platform_init linux_termbits
       (quiet_os\<lparr>sys_posix_openpt := -1\<rparr>) serial_device)) = -1)
   \<and> (reports_failure (snd (platform_init linux_termbits
       (quiet_os\<lparr>sys_grantpt := (\<lambda>_. -1)\<rparr>) serial_device))
    \<and> fd (fst (platform_init linux_termbits
       (quiet_os\<lparr>sys_grantpt := (\<lambda>_. -1)\<rparr>) serial_device)) = -1)
   \<and> (reports_failure (snd (platform_init linux_termbits
       (quiet_os\<lparr>sys_unlockpt := (\<lambda>_. -1)\<rparr>) serial_device))
    \<and> fd (fst (platform_init linux_termbits
       (quiet_os\<lparr>sys_unlockpt := (\<lambda>_. -1)\<rparr>) serial_device)) = -1)
   \<and> (reports_failure (snd (platform_init linux_termbits
       (quiet_os\<lparr>sys_ptsname := (\<lambda>_. None)\<rparr>) serial_device))
    \<and> fd (fst (platform_init linux_termbits
       (quiet_os\<lparr>sys_ptsname := (\<lambda>_. None)\<rparr>) serial_device)) = -1)
   \<and> (reports_failure (snd (platform_init linux_termbits
       (quiet_os\<lparr>sys_open := (\<lambda>_. -1)\<rparr>) (serial_device\<lparr>path := ''/dev/ttyS0''\<rparr>)))
    \<and> fd (fst (platform_init linux_termbits
       (quiet_os\<lparr>sys_open := (\<lambda>_. -1)\<rparr>) (serial_device\<lparr>path := ''/dev/ttyS0''\<rparr>))) = -1)
   \<and> (reports_failure (snd (platform_init linux_termbits
       (quiet_os\<lparr>sys_tcgetattr := (\<lambda>f. (-1, snd (sys_tcgetattr quiet_os f)))\<rparr>)
       (serial_device\<lparr>path := ''/dev/ttyS0''\<rparr>)))
    \<and> fd (fst (platform_init linux_termbits
       (quiet_os\<lparr>sys_tcgetattr := (\<lambda>f. (-1, snd (sys_tcgetattr quiet_os f)))\<rparr>)
       (serial_device\<lparr>path := ''/dev/ttyS0''\<rparr>))) = -1)
   \<and> (reports_failure (snd (platform_init linux_termbits
       (quiet_os\<lparr>sys_tcsetattr := (\<lambda>_ _. -1)\<rparr>) (serial_device\<lparr>path := ''/dev/ttyS0''\<rparr>)))
    \<and> fd (fst (platform_init linux_termbits
       (quiet_os\<lparr>sys_tcsetattr := (\<lambda>_ _. -1)\<rparr>) (serial_device\<lparr>path := ''/dev/ttyS0''\<rparr>))) = -1)
   \<and> fst (parseArgs linux_termbits False [''prog''] serial_device) \<noteq> 0
   \<and> (\<exists>cfg2 tr2. startup linux_termbits False (quiet_os\<lparr>sys_posix_openpt := -1\<rparr>) [''prog'']
                    = Inr (cfg2, tr2)
         \<and> reports_failure tr2 \<and> fd cfg2 = -1)"
proof -
  note ev = platform_init_def serial_device_def quiet_os_def reports_failure_def
    init_banner_def Let_def
  note th = failed_init_leaves_closed[THEN conjunct2, THEN conjunct2, THEN conjunct1,
      rule_format, OF conjI]
  have c: "fd serial_device = -1 \<or> path serial_device \<noteq> []"
    "fd (serial_device\<lparr>path := ''/dev/ttyS0''\<rparr>) = -1
       \<or> path (serial_device\<lparr>path := ''/dev/ttyS0''\<rparr>) \<noteq> []"
    by (simp_all add: serial_device_def)
  have h1: "reports_failure (snd (platform_init linux_termbits
       (quiet_os\<lparr>sys_posix_openpt := -1\<rparr>) serial_device))" by (simp add: ev)
  have h2: "reports_failure (snd (platform_init linux_termbits
       (quiet_os\<lparr>sys_grantpt := (\<lambda>_. -1)\<rparr>) serial_device))" by (simp add: ev)
  have h3: "reports_failure (snd (platform_init linux_termbits
       (quiet_os\<lparr>sys_unlockpt := (\<lambda>_. -1)\<rparr>) serial_device))" by (simp add: ev)
  have h4: "reports_failure (snd (platform_init linux_termbits
       (quiet_os\<lparr>sys_ptsname := (\<lambda>_. None)\<rparr>) serial_device))" by (simp add: ev)
  have h5: "reports_failure (snd (platform_init linux_termbits
       (quiet_os\<lparr>sys_open := (\<lambda>_. -1)\<rparr>) (serial_device\<lparr>path := ''/dev/ttyS0''\<rparr>)))"
    by (simp add: ev)
  have h6: "reports_failure (snd (platform_init linux_termbits
       (quiet_os\<lparr>sys_tcgetattr := (\<lambda>f. (-1, snd (sys_tcgetattr quiet_os f)))\<rparr>)
       (serial_device\<lparr>path := ''/dev/ttyS0''\<rparr>)))" by (simp add: ev)
  have h7: "reports_failure (snd (platform_init linux_termbits
       (quiet_os\<lparr>sys_tcsetattr := (\<lambda>_ _. -1)\<rparr>) (serial_device\<lparr>path := ''/dev/ttyS0''\<rparr>)))"
    by (simp add: ev)
  have p: "parseArgs linux_termbits False [''prog''] serial_device
      = (1, fst (snd (parseArgs linux_termbits False [''prog''] serial_device)),
         serial_device, [])"
    by (simp add: parseArgs_def parseArgs_loop.simps scan_defs Let_def)
  then have ok: "fst (parseArgs linux_termbits False [''prog''] serial_device) \<noteq> 0"
    by (metis fst_conv one_neq_zero)
  from failed_init_leaves_closed[THEN conjunct2, THEN conjunct1, rule_format, OF ok,
      where sys="quiet_os\<lparr>sys_posix_openpt := -1\<rparr>"]
  obtain cfg2 tr2 where
    s: "startup linux_termbits False (quiet_os\<lparr>sys_posix_openpt := -1\<rparr>) [''prog'']
          = Inr (cfg2, tr2)"
    and f: "reports_failure tr2 \<longrightarrow> fd cfg2 = -1" by blast
  have "reports_failure tr2"
    using s unfolding startup_unfold[OF p]
    by (auto simp: ev)
  with s f have "\<exists>cfg2 tr2. startup linux_termbits False (quiet_os\<lparr>sys_posix_openpt := -1\<rparr>)
        [''prog''] = Inr (cfg2, tr2) \<and> reports_failure tr2 \<and> fd cfg2 = -1" by blast
  with th[OF h1 c(1)] th[OF h2 c(1)] th[OF h3 c(1)] th[OF h4 c(1)]
    th[OF h5 c(2)] th[OF h6 c(2)] th[OF h7 c(2)] h1 h2 h3 h4 h5 h6 h7 ok
  show ?thesis by (intro conjI) assumption+
qed

section \<open>Reading the command line\<close>

text \<open>
  Between two calls the scanner stands before the elements \<open>R\<close> that are still to be
  read: they are the elements of \<open>argv\<close> from \<open>optind\<close> on, whatever the permutation has
  done to the elements before them; \<open>argv[0]\<close> is never moved.
\<close>

definition ready :: "bool \<Rightarrow> string \<Rightarrow> string list \<Rightarrow> getopt_data \<Rightarrow> bool" where
  "ready pc prog R d =
     (initialized d \<and> nextchar d = []
      \<and> ordering d = (if pc then REQUIRE_ORDER else PERMUTE)
      \<and> 1 \<le> first_nonopt d \<and> 1 \<le> optind d \<and> optind d \<le> length (argv d)
      \<and> take 1 (argv d) = [prog] \<and> drop (optind d) (argv d) = R)"

lemma NONOPTION_P_operand: "NONOPTION_P a = operand a"
  by (cases a) (auto simp: NONOPTION_P_def operand_def)

lemma exchange_ready:
  assumes "1 \<le> first_nonopt d" "optind d \<le> length (argv d)"
  shows "length (argv (exchange d)) = length (argv d)"
    "drop (optind d) (argv (exchange d)) = drop (optind d) (argv d)"
    "take 1 (argv (exchange d)) = take 1 (argv d)"
    "1 \<le> first_nonopt (exchange d)"
    "optind (exchange d) = optind d" "nextchar (exchange d) = nextchar d"
    "ordering (exchange d) = ordering d" "initialized (exchange d) = initialized d"
    "optarg (exchange d) = optarg d"
  using assms by (auto simp: exchange_def Let_def min_def)

lemma getopt_prepare_ready:
  assumes "ready pc prog R d \<or> d = getopt_start (prog # R)"
  shows "ready pc prog R (getopt_prepare pc ''t:b:f:h'' d)"
    "optarg (getopt_prepare pc ''t:b:f:h'' d) = None"
  using assms
  by (auto simp: ready_def getopt_prepare_def getopt_initialize_def getopt_start_def Let_def)

lemma skip_nonoptions_drop:
  "drop (skip_nonoptions d) (argv d) = dropWhile operand (drop (optind d) (argv d))"
proof -
  have e: "NONOPTION_P = operand" by (rule ext) (rule NONOPTION_P_operand)
  show ?thesis
    unfolding skip_nonoptions_def e
    by (simp add: add.commute[of "optind d"] drop_drop[symmetric] dropWhile_eq_drop[symmetric]
        del: drop_drop)
qed

lemma skip_nonoptions_le:
  "optind d \<le> length (argv d) \<Longrightarrow> skip_nonoptions d \<le> length (argv d)"
  "optind d \<le> skip_nonoptions d"
proof -
  have "length (takeWhile NONOPTION_P (drop (optind d) (argv d))) \<le> length (drop (optind d) (argv d))"
    by (rule length_takeWhile_le)
  then show "optind d \<le> length (argv d) \<Longrightarrow> skip_nonoptions d \<le> length (argv d)"
    by (simp add: skip_nonoptions_def)
  show "optind d \<le> skip_nonoptions d" by (simp add: skip_nonoptions_def)
qed

lemma permute_step_ready:
  assumes "ready False prog R d"
  shows "ready False prog (dropWhile operand R) (permute_step d)"
    "optarg (permute_step d) = optarg d"
proof -
  define d1 where "d1 = (if first_nonopt d \<noteq> last_nonopt d \<and> last_nonopt d \<noteq> optind d then exchange d
                else if last_nonopt d \<noteq> optind d then d\<lparr>first_nonopt := optind d\<rparr>
                else d)"
  have ps: "permute_step d = d1\<lparr>optind := skip_nonoptions d1, last_nonopt := skip_nonoptions d1\<rparr>"
    by (simp add: permute_step_def d1_def Let_def)
  from assms have a: "1 \<le> first_nonopt d" "optind d \<le> length (argv d)" "1 \<le> optind d"
    by (simp_all add: ready_def)
  note x = exchange_ready[OF a(1,2)]
  have r1: "ready False prog R d1" "optarg d1 = optarg d"
    using assms x unfolding d1_def by (auto simp: ready_def)
  then have b: "optind d1 \<le> length (argv d1)" "1 \<le> optind d1" "drop (optind d1) (argv d1) = R"
    by (simp_all add: ready_def)
  from skip_nonoptions_le(1)[OF b(1)] skip_nonoptions_le(2)[of d1] b(2)
    skip_nonoptions_drop[of d1] b(3) r1(1)
  show "ready False prog (dropWhile operand R) (permute_step d)"
    unfolding ps by (simp add: ready_def)
  show "optarg (permute_step d) = optarg d" unfolding ps using r1(2) by simp
qed

lemma dashdash_step_ready:
  assumes "ready pc prog R d" "optind d < length (argv d)"
  shows "ready pc prog [] (dashdash_step d)" "optarg (dashdash_step d) = optarg d"
proof -
  define d1 where "d1 = d\<lparr>optind := optind d + 1\<rparr>"
  define d2 where "d2 = (if first_nonopt d1 \<noteq> last_nonopt d1 \<and> last_nonopt d1 \<noteq> optind d1
                then exchange d1
                else if first_nonopt d1 = last_nonopt d1 then d1\<lparr>first_nonopt := optind d1\<rparr>
                else d1)"
  have ds: "dashdash_step d = d2\<lparr>last_nonopt := argc d2, optind := argc d2\<rparr>"
    by (simp add: dashdash_step_def d1_def d2_def Let_def)
  from assms have a: "1 \<le> first_nonopt d1" "optind d1 \<le> length (argv d1)"
    by (simp_all add: ready_def d1_def)
  note x = exchange_ready[OF a]
  have "initialized d2 \<and> nextchar d2 = [] \<and> ordering d2 = (if pc then REQUIRE_ORDER else PERMUTE)
      \<and> 1 \<le> first_nonopt d2 \<and> take 1 (argv d2) = [prog] \<and> 1 \<le> length (argv d2)
      \<and> optarg d2 = optarg d"
    using assms x unfolding d2_def by (auto simp: ready_def d1_def)
  then show "ready pc prog [] (dashdash_step d)" "optarg (dashdash_step d) = optarg d"
    unfolding ds by (simp_all add: ready_def argc_def)
qed

text \<open>
  What is left to read once the scanner has moved over the operands (when it permutes)
  and over \<^verbatim>\<open>--\<close>, after which nothing is left.
\<close>

definition next_pending :: "bool \<Rightarrow> string list \<Rightarrow> string list" where
  "next_pending pc R =
     (let R1 = (if pc then R else dropWhile operand R)
      in if take 1 R1 = [''--''] then [] else R1)"

lemma next_element_ready:
  assumes "ready pc prog R d"
  shows "ready pc prog (next_pending pc R) (next_element d)"
    "optarg (next_element d) = optarg d"
proof -
  define d1 where "d1 = (if last_nonopt d > optind d then d\<lparr>last_nonopt := optind d\<rparr> else d)"
  define d2 where "d2 = (if first_nonopt d1 > optind d1 then d1\<lparr>first_nonopt := optind d1\<rparr> else d1)"
  define d3 where "d3 = (if ordering d2 = PERMUTE then permute_step d2 else d2)"
  define R1 where "R1 = (if pc then R else dropWhile operand R)"
  have ne: "next_element d = (if optind d3 < argc d3 \<and> argv d3 ! optind d3 = ''--''
         then dashdash_step d3 else d3)"
    by (simp add: next_element_def d1_def d2_def d3_def Let_def)
  have r2: "ready pc prog R d2" "optarg d2 = optarg d"
    using assms by (auto simp: d1_def d2_def ready_def)
  have r3: "ready pc prog R1 d3 \<and> optarg d3 = optarg d"
  proof (cases pc)
    case True
    with r2 show ?thesis by (simp add: d3_def R1_def ready_def)
  next
    case False
    with r2 have "ordering d2 = PERMUTE" "ready False prog R d2" by (simp_all add: ready_def)
    with permute_step_ready[of prog R d2] r2(2) False show ?thesis
      by (simp add: d3_def R1_def)
  qed
  then have p: "drop (optind d3) (argv d3) = R1" "optind d3 \<le> length (argv d3)"
    by (simp_all add: ready_def)
  have t: "(optind d3 < argc d3 \<and> argv d3 ! optind d3 = ''--'') = (take 1 R1 = [''--''])"
  proof (cases "optind d3 < length (argv d3)")
    case True
    from Cons_nth_drop_Suc[OF True] p(1) show ?thesis using True
      by (auto simp: argc_def)
  next
    case False
    with p have "R1 = []" by simp
    with False show ?thesis by (simp add: argc_def)
  qed
  have np: "next_pending pc R = (if take 1 R1 = [''--''] then [] else R1)"
    by (simp add: next_pending_def R1_def Let_def)
  have ne': "next_element d = (if take 1 R1 = [''--''] then dashdash_step d3 else d3)"
    unfolding ne t ..
  show "ready pc prog (next_pending pc R) (next_element d)"
    "optarg (next_element d) = optarg d"
  proof (atomize (full), cases "take 1 R1 = [''--'']")
    case True
    with t have lt: "optind d3 < length (argv d3)" by (simp add: argc_def)
    from dashdash_step_ready[OF r3[THEN conjunct1] lt] r3
    show "ready pc prog (next_pending pc R) (next_element d)
        \<and> optarg (next_element d) = optarg d"
      unfolding ne' np if_P[OF True] by simp
  next
    case False
    from r3
    show "ready pc prog (next_pending pc R) (next_element d)
        \<and> optarg (next_element d) = optarg d"
      unfolding ne' np if_not_P[OF False] by simp
  qed
qed

lemma rejects_dropWhile: "rejects False R = rejects False (dropWhile operand R)"
  by (induction R) (auto simp: operand_def)

lemma rejects_next_pending: "rejects pc R = rejects pc (next_pending pc R)"
proof -
  define R1 where "R1 = (if pc then R else dropWhile operand R)"
  have 1: "rejects pc R = rejects pc R1"
    using rejects_dropWhile[of R] by (cases pc) (simp_all add: R1_def)
  have 2: "rejects pc R1 = rejects pc (if take 1 R1 = [''--''] then [] else R1)"
    by (cases R1) auto
  show ?thesis unfolding 1 2 by (simp add: next_pending_def R1_def Let_def)
qed

lemma next_pending_head:
  assumes "next_pending pc R = a # rest"
  shows "a \<noteq> ''--''" "operand a \<Longrightarrow> pc"
proof -
  define R1 where "R1 = (if pc then R else dropWhile operand R)"
  from assms have e: "R1 = a # rest" and n: "a \<noteq> ''--''"
    by (auto simp: next_pending_def R1_def[symmetric] Let_def split: if_splits)
  show "a \<noteq> ''--''" by (rule n)
  show "pc" if "operand a"
  proof (rule ccontr)
    assume "\<not> pc"
    with e have "dropWhile operand R = a # rest" by (simp add: R1_def)
    from hd_dropWhile[of operand R] this that show False by auto
  qed
qed

text \<open>
  A long option. The twelve spellings of \<open>long_value_names\<close> select \<^verbatim>\<open>--tty\<close>, \<^verbatim>\<open>--baud\<close> or
  \<^verbatim>\<open>--hwflow\<close>; every other name is \<^verbatim>\<open>--help\<close>, one of its beginnings, ambiguous or unknown.
\<close>

lemma option_matches_prefixes:
  "option_matches typed (w, x) = (typed \<in> set (prefixes w))"
proof -
  have "(take (length typed) w = typed) = prefix typed w"
    by (metis append_eq_conv_conj prefix_def)
  then show ?thesis by (simp add: option_matches_def in_set_prefixes)
qed

lemma process_long_option_value:
  assumes "takeWhile (\<lambda>c. c \<noteq> CHR ''='') (nextchar d) \<in> set long_value_names"
  shows "\<exists>code. value_option code \<and>
     process_long_option pe os longOpts d =
       (code,
        (if dropWhile (\<lambda>c. c \<noteq> CHR ''='') (nextchar d) \<noteq> []
         then d\<lparr>optind := optind d + 1, nextchar := [],
                 optarg := Some (tl (dropWhile (\<lambda>c. c \<noteq> CHR ''='') (nextchar d)))\<rparr>
         else d\<lparr>optind := optind d + 1, nextchar := []\<rparr>), [])"
proof -
  define typed where "typed = takeWhile (\<lambda>c. c \<noteq> CHR ''='') (nextchar d)"
  define rest where "rest = dropWhile (\<lambda>c. c \<noteq> CHR ''='') (nextchar d)"
  define sel where "sel = (\<lambda>t. case find (\<lambda>p. fst p = t) longOpts of
           Some pfound \<Rightarrow> Some pfound
         | None \<Rightarrow>
             (case filter (option_matches t) longOpts of
                [] \<Rightarrow> None
              | pfound # ps \<Rightarrow>
                  if list_ex (option_differs pfound) ps then None else Some pfound))"
  let ?t = "(''tty'', optional_argument, of_char CHR ''t'')"
  let ?b = "(''baud'', optional_argument, of_char CHR ''b'')"
  let ?f = "(''hwflow'', optional_argument, of_char CHR ''f'')"
  have "list_all (\<lambda>t. sel t = Some ?t \<or> sel t = Some ?b \<or> sel t = Some ?f) long_value_names"
    by (simp add: sel_def long_value_names_def longOpts_def option_matches_def)
  moreover from assms have "typed \<in> set long_value_names" by (simp add: typed_def)
  ultimately obtain p where s: "sel typed = Some p" and p: "p = ?t \<or> p = ?b \<or> p = ?f"
    by (auto simp: list_all_iff)
  have "process_long_option pe os longOpts d = long_option_found pe os p rest d"
    using s unfolding process_long_option_def typed_def[symmetric] rest_def[symmetric] Let_def sel_def
    by (auto split: option.splits list.splits if_splits)
  moreover have "\<exists>code. value_option code \<and> long_option_found pe os p rest d =
       (code,
        (if rest \<noteq> []
         then d\<lparr>optind := optind d + 1, nextchar := [], optarg := Some (tl rest)\<rparr>
         else d\<lparr>optind := optind d + 1, nextchar := []\<rparr>), [])"
    using p
    by (auto simp: long_option_found_def value_option_def optional_argument_def Let_def)
  ultimately show ?thesis unfolding rest_def by simp
qed

lemma process_long_option_reject:
  assumes "takeWhile (\<lambda>c. c \<noteq> CHR ''='') (nextchar d) \<notin> set long_value_names"
  shows "rejected (fst (process_long_option pe os longOpts d))"
proof -
  define typed where "typed = takeWhile (\<lambda>c. c \<noteq> CHR ''='') (nextchar d)"
  define rest where "rest = dropWhile (\<lambda>c. c \<noteq> CHR ''='') (nextchar d)"
  have plo: "process_long_option pe os longOpts d =
     (case find (\<lambda>p. fst p = typed) longOpts of
           Some pfound \<Rightarrow> long_option_found pe os pfound rest d
         | None \<Rightarrow>
             (case filter (option_matches typed) longOpts of
                [] \<Rightarrow>
                  (QUESTION, d\<lparr>nextchar := [], optind := optind d + 1, optopt := 0\<rparr>,
                   if pe
                   then [Stderr (progname d @ '': unrecognized option ''
                                 @ quoted (''--'' @ nextchar d) @ ''\<newline>'')]
                   else [])
              | pfound # ps \<Rightarrow>
                  if list_ex (option_differs pfound) ps then
                    (QUESTION, d\<lparr>nextchar := [], optind := optind d + 1, optopt := 0\<rparr>,
                     if pe
                     then [Stderr (progname d @ '': option '' @ quoted (''--'' @ nextchar d)
                                   @ '' is ambiguous; possibilities:''
                                   @ concat (map (\<lambda>p. '' '' @ quoted (''--'' @ fst p))
                                               (pfound # filter (option_differs pfound) ps))
                                   @ ''\<newline>'')]
                     else [])
                  else long_option_found pe os pfound rest d))"
    unfolding process_long_option_def typed_def rest_def Let_def ..
  from assms have n: "typed \<notin> set long_value_names" by (simp add: typed_def)
  have q: "rejected QUESTION" "rejected (of_char CHR ''h'')"
    by (simp_all add: rejected_def QUESTION_def value_option_def)
  have h: "rejected (fst (long_option_found pe os (''help'', no_argument, of_char CHR ''h'') rest d))"
    using q by (simp add: long_option_found_def no_argument_def Let_def)
  consider "typed = ''help''" | "typed = ''hel''" | "typed = ''he''" | "typed = ''h''" | "typed = []"
    | "typed \<notin> set (prefixes ''tty'')" "typed \<notin> set (prefixes ''baud'')"
      "typed \<notin> set (prefixes ''hwflow'')" "typed \<notin> set (prefixes ''help'')"
    using n by (auto simp: long_value_names_def)
  then show ?thesis
  proof cases
    case 1
    then show ?thesis unfolding plo using h by (simp add: longOpts_def)
  next
    case 2
    then show ?thesis unfolding plo using h
      by (simp add: longOpts_def option_matches_def)
  next
    case 3
    then show ?thesis unfolding plo using h
      by (simp add: longOpts_def option_matches_def)
  next
    case 4
    then show ?thesis unfolding plo using q
      by (simp add: longOpts_def option_matches_def option_differs_def
          optional_argument_def no_argument_def)
  next
    case 5
    then show ?thesis unfolding plo using q
      by (simp add: longOpts_def option_matches_def option_differs_def
          optional_argument_def no_argument_def)
  next
    case 6
    then have f: "find (\<lambda>p. fst p = typed) longOpts = None"
      by (auto simp: longOpts_def)
    from 6 have "filter (option_matches typed) longOpts = []"
      unfolding longOpts_def by (simp only: filter.simps option_matches_prefixes if_False)
    with f show ?thesis unfolding plo using q by simp
  qed
qed

text \<open>A short option: \<^verbatim>\<open>t\<close>, \<^verbatim>\<open>b\<close> and \<^verbatim>\<open>f\<close> want a value, every other character is rejected.\<close>

lemma short_option_value:
  assumes "nextchar d = c # tail" "c = CHR ''t'' \<or> c = CHR ''b'' \<or> c = CHR ''f''"
  shows "value_option (of_char c)"
    "tail \<noteq> [] \<Longrightarrow> short_option pe ''t:b:f:h'' d =
       (of_char c, d\<lparr>nextchar := [], optarg := Some tail, optind := optind d + 1\<rparr>, [])"
    "tail = [] \<Longrightarrow> optind d + 1 < argc d \<Longrightarrow> short_option pe ''t:b:f:h'' d =
       (of_char c, d\<lparr>nextchar := [], optarg := Some (argv d ! (optind d + 1)),
                      optind := optind d + 2\<rparr>, [])"
    "tail = [] \<Longrightarrow> argc d \<le> optind d + 1 \<Longrightarrow>
       fst (short_option pe ''t:b:f:h'' d) = QUESTION"
  using assms by (auto simp: short_option_def Let_def value_option_def argc_def)

lemma short_option_reject:
  assumes "nextchar d = c # tail" "c \<noteq> CHR ''t''" "c \<noteq> CHR ''b''" "c \<noteq> CHR ''f''"
  shows "rejected (fst (short_option pe ''t:b:f:h'' d))"
proof -
  have q: "rejected QUESTION" "rejected (of_char CHR ''h'')"
    by (simp_all add: rejected_def QUESTION_def value_option_def)
  consider "c = CHR ''h''" | "c = CHR '':''"
    | "CHR ''t'' \<noteq> c" "CHR ''b'' \<noteq> c" "CHR ''f'' \<noteq> c" "CHR ''h'' \<noteq> c" "CHR '':'' \<noteq> c"
    using assms by auto
  then show ?thesis
  proof cases
    case 1
    then show ?thesis using q assms(1) by (simp add: short_option_def Let_def)
  next
    case 2
    then show ?thesis using q assms(1) by (simp add: short_option_def Let_def)
  next
    case 3
    then show ?thesis using q assms(1) by (simp add: short_option_def Let_def)
  qed
qed

lemma short_option_argv: "argv (fst (snd (short_option pe os d))) = argv d"
  by (simp add: short_option_def Let_def split: list.splits)

lemma drop_Cons_facts:
  assumes "drop n xs = a # rest"
  shows "drop (Suc n) xs = rest" "n < length xs" "xs ! n = a"
proof -
  show "n < length xs" using assms by (cases "n < length xs") simp_all
  show "xs ! n = a" using assms by (rule nth_via_drop)
  have "drop (Suc n) xs = tl (drop n xs)" by (simp add: drop_Suc tl_drop)
  then show "drop (Suc n) xs = rest" using assms by simp
qed

lemma take1_progname: "take 1 (argv d) = [prog] \<Longrightarrow> progname d = prog"
  by (cases "argv d") (simp_all add: progname_def)

lemma option_element_forms:
  assumes "\<not> operand a"
  obtains c tail where "a = CHR ''-'' # c # tail"
  using assms by (cases a; cases "tl a") (auto simp: operand_def)

lemma rejected_not_value: "rejected opt \<Longrightarrow> \<not> value_option opt"
  by (simp add: rejected_def)

text \<open>After an option that took its value from its own element.\<close>

lemma ready_next:
  assumes "ready pc prog (a # rest) d4"
  shows "ready pc prog rest (d4\<lparr>nextchar := x, optind := optind d4 + 1, nextchar := [], optarg := y\<rparr>)"
    "ready pc prog rest (d4\<lparr>nextchar := x, optind := optind d4 + 1, nextchar := []\<rparr>)"
    "ready pc prog rest (d4\<lparr>nextchar := x, nextchar := [], optarg := y, optind := optind d4 + 1\<rparr>)"
proof -
  from assms have dr: "drop (optind d4) (argv d4) = a # rest" by (simp add: ready_def)
  note f = drop_Cons_facts[OF dr]
  from assms f show
    "ready pc prog rest (d4\<lparr>nextchar := x, optind := optind d4 + 1, nextchar := [], optarg := y\<rparr>)"
    "ready pc prog rest (d4\<lparr>nextchar := x, optind := optind d4 + 1, nextchar := []\<rparr>)"
    "ready pc prog rest (d4\<lparr>nextchar := x, nextchar := [], optarg := y, optind := optind d4 + 1\<rparr>)"
    by (simp_all add: ready_def)
qed

lemma ready_next2:
  assumes "ready pc prog (a # v # rest) d4"
  shows "ready pc prog rest (d4\<lparr>nextchar := x, nextchar := [], optarg := y, optind := optind d4 + 2\<rparr>)"
    "ready pc prog rest (d4\<lparr>nextchar := x, optind := optind d4 + 1, nextchar := [], optind := optind d4 + 1 + 1\<rparr>)"
    "argv d4 ! (optind d4 + 1) = v" "optind d4 + 1 < length (argv d4)"
proof -
  from assms have dr: "drop (optind d4) (argv d4) = a # v # rest" by (simp add: ready_def)
  note f = drop_Cons_facts[OF dr]
  note f2 = drop_Cons_facts[OF f(1)]
  from assms f f2 show
    "ready pc prog rest (d4\<lparr>nextchar := x, nextchar := [], optarg := y, optind := optind d4 + 2\<rparr>)"
    "ready pc prog rest (d4\<lparr>nextchar := x, optind := optind d4 + 1, nextchar := [], optind := optind d4 + 1 + 1\<rparr>)"
    "argv d4 ! (optind d4 + 1) = v" "optind d4 + 1 < length (argv d4)"
    by (simp_all add: ready_def)
qed

text \<open>
  An element written as a long option, and one written as a cluster of short options:
  the code reported, the state once the parser has taken the value, and what is left to
  read then.
\<close>

lemma long_element:
  assumes r: "ready pc prog (a # rest) d4" and o: "optarg d4 = None"
    and a: "a = CHR ''-'' # CHR ''-'' # tail" "tail \<noteq> []"
    and g: "process_long_option pe os longOpts (d4\<lparr>nextchar := tail\<rparr>) = (opt, d1, ev1)"
  shows "take 1 (argv d1) = [prog]"
    "value_option opt \<Longrightarrow>
       \<exists>R'. ready pc prog R' (snd (option_value d1)) \<and> rejects pc (a # rest) = rejects pc R'"
    "\<not> value_option opt \<Longrightarrow> rejected opt = rejects pc (a # rest)"
proof -
  let ?d5 = "d4\<lparr>nextchar := tail\<rparr>"
  define typed where "typed = takeWhile (\<lambda>c. c \<noteq> CHR ''='') tail"
  define eqv where "eqv = dropWhile (\<lambda>c. c \<noteq> CHR ''='') tail"
  define rj where "rj = rejects pc (a # rest)"
  have eq: "(CHR ''='' \<in> set a) = (eqv \<noteq> [])"
    by (auto simp: a eqv_def dropWhile_eq_Nil_conv)
  have ra: "rj =
     (if typed \<in> set long_value_names then
           (if eqv \<noteq> [] then rejects pc rest
            else (case rest of
                    [] \<Rightarrow> False
                  | v # rest' \<Rightarrow> if take 1 v = ''-'' then rejects pc rest else rejects pc rest'))
         else True)"
    unfolding eq[symmetric] typed_def rj_def using a(2) by (simp add: a(1) operand_def)
  from process_long_option_facts(1)[OF g] have av: "argv d1 = argv d4" by simp
  with r show "take 1 (argv d1) = [prog]" by (simp add: ready_def)
  have main: "(value_option opt \<longrightarrow>
       (\<exists>R'. ready pc prog R' (snd (option_value d1)) \<and> rj = rejects pc R'))
     \<and> (\<not> value_option opt \<longrightarrow> rejected opt = rj)"
  proof (cases "typed \<in> set long_value_names")
    case False
    then have "rejected (fst (process_long_option pe os longOpts ?d5))"
      using process_long_option_reject[of ?d5 pe os] by (simp add: typed_def)
    then have "rejected opt" by (simp add: g)
    with False show ?thesis by (simp add: ra rejected_not_value)
  next
    case True
    then have "takeWhile (\<lambda>c. c \<noteq> CHR ''='') (nextchar ?d5) \<in> set long_value_names"
      by (simp add: typed_def)
    from process_long_option_value[OF this, of pe os] obtain code where
      v: "value_option code" and
      e: "process_long_option pe os longOpts ?d5 =
       (code,
        (if eqv \<noteq> []
         then ?d5\<lparr>optind := optind ?d5 + 1, nextchar := [], optarg := Some (tl eqv)\<rparr>
         else ?d5\<lparr>optind := optind ?d5 + 1, nextchar := []\<rparr>), [])"
      unfolding eqv_def by auto
    from e g have c: "opt = code" and d1: "d1 = (if eqv \<noteq> []
         then d4\<lparr>nextchar := tail, optind := optind d4 + 1, nextchar := [], optarg := Some (tl eqv)\<rparr>
         else d4\<lparr>nextchar := tail, optind := optind d4 + 1, nextchar := []\<rparr>)"
      by simp_all
    note tin = \<open>typed \<in> set long_value_names\<close>
    have "\<exists>R'. ready pc prog R' (snd (option_value d1)) \<and> rj = rejects pc R'"
    proof (cases "eqv \<noteq> []")
      case True
      then have d1': "d1 = d4\<lparr>nextchar := tail, optind := optind d4 + 1, nextchar := [], optarg := Some (tl eqv)\<rparr>"
        by (simp add: d1)
      have sv: "snd (option_value d1) = d1" by (simp add: option_value_def d1')
      have rd: "ready pc prog rest d1"
        unfolding d1' by (rule ready_next(1)[OF r])
      have rv: "rj = rejects pc rest" unfolding ra using tin True by simp
      from rd rv show ?thesis unfolding sv by blast
    next
      case False
      then have d1': "d1 = d4\<lparr>nextchar := tail, optind := optind d4 + 1, nextchar := []\<rparr>"
        by (simp add: d1)
      have oa: "optarg d1 = None" using o by (simp add: d1')
      have rd: "ready pc prog rest d1"
        unfolding d1' by (rule ready_next(2)[OF r])
      show ?thesis
      proof (cases rest)
        case Nil
        with r have "optind d4 + 1 = length (argv d4)"
          using drop_Cons_facts(1,2)[of "optind d4" "argv d4" a rest]
          by (auto simp: ready_def)
        then have sv: "snd (option_value d1) = d1" by (simp add: option_value_def d1' argc_def)
        have rv: "rj = rejects pc rest" unfolding ra using tin False Nil by simp
        from rd rv show ?thesis unfolding sv by blast
      next
        case (Cons v rest')
        note n2 = ready_next2[OF r[unfolded Cons]]
        have ov: "snd (option_value d1) =
           (if take 1 v \<noteq> ''-'' then d1\<lparr>optind := optind d1 + 1\<rparr> else d1)"
          using oa n2(3,4) by (simp add: option_value_def argc_def d1')
        show ?thesis
        proof (cases "take 1 v = ''-''")
          case True
          then have sv: "snd (option_value d1) = d1" unfolding ov by simp
          have rv: "rj = rejects pc rest" unfolding ra using tin False Cons True by simp
          from rd rv show ?thesis unfolding sv by blast
        next
          case f: False
          then have sv: "snd (option_value d1) = d1\<lparr>optind := optind d1 + 1\<rparr>"
            unfolding ov by simp
          have rd': "ready pc prog rest' (d1\<lparr>optind := optind d1 + 1\<rparr>)"
            using n2(2)[where x=tail] unfolding d1' by simp
          have rv: "rj = rejects pc rest'" unfolding ra using tin False Cons f by simp
          from rd' rv show ?thesis unfolding sv by blast
        qed
      qed
    qed
    with v c show ?thesis by simp
  qed
  from main show
    "value_option opt \<Longrightarrow>
       \<exists>R'. ready pc prog R' (snd (option_value d1)) \<and> rejects pc (a # rest) = rejects pc R'"
    "\<not> value_option opt \<Longrightarrow> rejected opt = rejects pc (a # rest)"
    unfolding rj_def by simp_all
qed

lemma short_element:
  assumes r: "ready pc prog (a # rest) d4" and o: "optarg d4 = None"
    and a: "a = CHR ''-'' # c # tail" "c \<noteq> CHR ''-''"
    and g: "short_option pe ''t:b:f:h'' (d4\<lparr>nextchar := c # tail\<rparr>) = (opt, d1, ev1)"
  shows "take 1 (argv d1) = [prog]"
    "value_option opt \<Longrightarrow>
       \<exists>R'. ready pc prog R' (snd (option_value d1)) \<and> rejects pc (a # rest) = rejects pc R'"
    "\<not> value_option opt \<Longrightarrow> rejected opt = rejects pc (a # rest)"
proof -
  let ?d5 = "d4\<lparr>nextchar := c # tail\<rparr>"
  define rj where "rj = rejects pc (a # rest)"
  have ra: "rj =
     (if c = CHR ''t'' \<or> c = CHR ''b'' \<or> c = CHR ''f'' then
        (if tail \<noteq> [] then rejects pc rest
         else (case rest of [] \<Rightarrow> True | v # rest' \<Rightarrow> rejects pc rest'))
      else True)"
    unfolding rj_def using a(2) by (simp add: a(1) operand_def)
  from short_option_argv[of pe "''t:b:f:h''" ?d5] g have av: "argv d1 = argv d4" by simp
  with r show "take 1 (argv d1) = [prog]" by (simp add: ready_def)
  have nc: "nextchar ?d5 = c # tail" by simp
  have q: "rejected QUESTION" by (simp add: rejected_def QUESTION_def value_option_def)
  have main: "(value_option opt \<longrightarrow>
       (\<exists>R'. ready pc prog R' (snd (option_value d1)) \<and> rj = rejects pc R'))
     \<and> (\<not> value_option opt \<longrightarrow> rejected opt = rj)"
  proof (cases "c = CHR ''t'' \<or> c = CHR ''b'' \<or> c = CHR ''f''")
    case False
    then have "rejected (fst (short_option pe ''t:b:f:h'' ?d5))"
      using short_option_reject[OF nc, of pe] by simp
    then have "rejected opt" by (simp add: g)
    with False show ?thesis by (simp add: ra rejected_not_value)
  next
    case True
    note sv = short_option_value[OF nc True]
    show ?thesis
    proof (cases "tail \<noteq> []")
      case t: True
      from sv(2)[OF t, of pe] g have c: "opt = of_char c"
        and d1: "d1 = d4\<lparr>nextchar := c # tail, nextchar := [], optarg := Some tail,
                        optind := optind d4 + 1\<rparr>" by simp_all
      have so: "snd (option_value d1) = d1" by (simp add: option_value_def d1)
      have rd: "ready pc prog rest d1" unfolding d1 by (rule ready_next(3)[OF r])
      have rv: "rj = rejects pc rest" unfolding ra using True t by simp
      from rd rv sv(1) show ?thesis unfolding so c by blast
    next
      case t: False
      then have t: "tail = []" by simp
      show ?thesis
      proof (cases rest)
        case Nil
        with r have "argc ?d5 \<le> optind ?d5 + 1"
          using drop_Cons_facts(1,2)[of "optind d4" "argv d4" a rest]
          by (auto simp: ready_def argc_def)
        from sv(4)[OF t this, of pe] g have "opt = QUESTION" by simp
        with q True t Nil show ?thesis by (simp add: ra rejected_not_value)
      next
        case (Cons v rest')
        note n2 = ready_next2[OF r[unfolded Cons]]
        from n2(4) have "optind ?d5 + 1 < argc ?d5" by (simp add: argc_def)
        from sv(3)[OF t this, of pe] g have c: "opt = of_char c"
          and d1: "d1 = d4\<lparr>nextchar := c # tail, nextchar := [],
                          optarg := Some (argv d4 ! (optind d4 + 1)),
                          optind := optind d4 + 2\<rparr>" by simp_all
        have so: "snd (option_value d1) = d1" by (simp add: option_value_def d1)
        have rd: "ready pc prog rest' d1" unfolding d1 by (rule n2(1))
        have rv: "rj = rejects pc rest'" unfolding ra using True t Cons by simp
        from rd rv sv(1) show ?thesis unfolding so c by blast
      qed
    qed
  qed
  from main show
    "value_option opt \<Longrightarrow>
       \<exists>R'. ready pc prog R' (snd (option_value d1)) \<and> rejects pc (a # rest) = rejects pc R'"
    "\<not> value_option opt \<Longrightarrow> rejected opt = rejects pc (a # rest)"
    unfolding rj_def by simp_all
qed

text \<open>One call of the scanner from a state between two elements.\<close>

lemma getopt_long_ready:
  assumes a: "ready pc prog R d \<or> d = getopt_start (prog # R)"
    and g: "getopt_long pc ''t:b:f:h'' longOpts d = (opt, d1, ev1)"
  shows "take 1 (argv d1) = [prog]"
    "value_option opt \<Longrightarrow>
       \<exists>R'. ready pc prog R' (snd (option_value d1)) \<and> rejects pc R = rejects pc R'"
    "\<not> value_option opt \<Longrightarrow> rejected opt = rejects pc R"
proof -
  define d0 where "d0 = getopt_prepare pc ''t:b:f:h'' d"
  define d4 where "d4 = next_element d0"
  define R4 where "R4 = next_pending pc R"
  note r0 = getopt_prepare_ready[OF a, folded d0_def]
  note r4 = next_element_ready[OF r0(1), folded d4_def R4_def]
  from r4(2) r0(2) have o4: "optarg d4 = None" by simp
  have rr: "rejects pc R = rejects pc R4" unfolding R4_def by (rule rejects_next_pending)
  from a have ge: "\<not> argc d < 1" by (auto simp: ready_def argc_def getopt_start_def)
  from r0(1) have n0: "nextchar d0 = []" by (simp add: ready_def)
  define pe where "pe = (take 1 ''t:b:f:h'' \<noteq> '':'')"
  have gl: "(case getopt_advance pe ''t:b:f:h'' longOpts d0 of
                 Inl r \<Rightarrow> r
               | Inr d2 \<Rightarrow> short_option pe ''t:b:f:h'' d2) = (opt, d1, ev1)"
    using g ge n0
    unfolding getopt_long_def Let_def optstring_body_prog d0_def[symmetric] pe_def[symmetric]
    by simp
  have ga: "getopt_advance pe ''t:b:f:h'' longOpts d0 =
     (if argc d4 \<le> optind d4 then
           Inl (-1, (if first_nonopt d4 \<noteq> last_nonopt d4
                     then d4\<lparr>optind := first_nonopt d4\<rparr> else d4), [])
         else if NONOPTION_P (argv d4 ! optind d4) then
           (if ordering d4 = REQUIRE_ORDER then Inl (-1, d4, [])
            else Inl (1, d4\<lparr>optarg := Some (argv d4 ! optind d4), optind := optind d4 + 1\<rparr>, []))
         else if take 1 (drop 1 (argv d4 ! optind d4)) = ''-'' then
           Inl (process_long_option pe ''t:b:f:h'' longOpts
                  (d4\<lparr>nextchar := drop 2 (argv d4 ! optind d4)\<rparr>))
         else Inr (d4\<lparr>nextchar := drop 1 (argv d4 ! optind d4)\<rparr>))"
    unfolding getopt_advance_def d4_def Let_def ..
  from r4(1) have t4: "take 1 (argv d4) = [prog]" and dr: "drop (optind d4) (argv d4) = R4"
    and l4: "optind d4 \<le> length (argv d4)"
    and o: "ordering d4 = (if pc then REQUIRE_ORDER else PERMUTE)"
    by (simp_all add: ready_def)
  have m1: "rejected (-1) = False" by (simp add: rejected_def)
  have nv: "\<not> value_option (-1)" by (simp add: value_option_def)
  have main: "take 1 (argv d1) = [prog]
     \<and> (value_option opt \<longrightarrow>
       (\<exists>R'. ready pc prog R' (snd (option_value d1)) \<and> rejects pc R4 = rejects pc R'))
     \<and> (\<not> value_option opt \<longrightarrow> rejected opt = rejects pc R4)"
  proof (cases R4)
    case Nil
    with dr l4 have "argc d4 \<le> optind d4" by (simp add: argc_def)
    with gl have "opt = -1" and "argv d1 = argv d4" unfolding ga by (auto split: if_splits)
    with t4 Nil nv m1 show ?thesis by simp
  next
    case (Cons a rest)
    note f = drop_Cons_facts[OF dr[unfolded Cons]]
    note h = next_pending_head[OF R4_def[symmetric, unfolded Cons]]
    from f have lt: "\<not> argc d4 \<le> optind d4" and e: "argv d4 ! optind d4 = a"
      by (simp_all add: argc_def)
    show ?thesis
    proof (cases "operand a")
      case True
      with h(2) o have "ordering d4 = REQUIRE_ORDER" and pc by simp_all
      with gl True have "opt = -1" and "argv d1 = argv d4"
        unfolding ga if_not_P[OF lt] e NONOPTION_P_operand by simp_all
      moreover have "rejects pc R4 = False" using True h(1) \<open>pc\<close> by (simp add: Cons)
      ultimately show ?thesis using t4 nv m1 by simp
    next
      case False
      then obtain c tail where a: "a = CHR ''-'' # c # tail" by (rule option_element_forms)
      show ?thesis
      proof (cases "c = CHR ''-''")
        case True
        with a h(1) have tl: "tail \<noteq> []" by auto
        from gl False True have "process_long_option pe ''t:b:f:h'' longOpts
             (d4\<lparr>nextchar := tail\<rparr>) = (opt, d1, ev1)"
          unfolding ga if_not_P[OF lt] e NONOPTION_P_operand by (simp add: a)
        from long_element[OF r4(1)[unfolded Cons] o4 a[unfolded True] tl this]
        show ?thesis unfolding Cons True[symmetric] a[symmetric] by blast
      next
        case c: False
        from gl False c have "short_option pe ''t:b:f:h''
             (d4\<lparr>nextchar := c # tail\<rparr>) = (opt, d1, ev1)"
          unfolding ga if_not_P[OF lt] e NONOPTION_P_operand by (simp add: a)
        from short_element[OF r4(1)[unfolded Cons] o4 a c this]
        show ?thesis unfolding Cons by blast
      qed
    qed
  qed
  from main show "take 1 (argv d1) = [prog]"
    "value_option opt \<Longrightarrow>
       \<exists>R'. ready pc prog R' (snd (option_value d1)) \<and> rejects pc R = rejects pc R'"
    "\<not> value_option opt \<Longrightarrow> rejected opt = rejects pc R"
    unfolding rr by simp_all
qed

text \<open>
  The loop of \<open>parseArgs\<close> decides as the reading of the command line does, and leaves
  \<open>argv[0]\<close> in its place.
\<close>

lemma ready_toLower_in_place:
  assumes "ready pc prog R d" "2 \<le> optind d"
  shows "ready pc prog R (toLower_in_place d v)"
  using assms
  by (simp add: ready_def toLower_in_place_def Let_def take_update_cancel drop_update_cancel)

lemma parseArgs_loop_ready:
  "ready pc prog R d \<or> d = getopt_start (prog # R) \<Longrightarrow>
   parseArgs_loop K pc d cfg tr = (r, d', cfg', tr') \<Longrightarrow>
     progname d' = prog \<and> (r = 0) = rejects pc R"
proof (induction K pc d cfg tr arbitrary: R r d' cfg' tr' rule: parseArgs_loop.induct)
  case (1 K pc d cfg tr)
  obtain opt d1 ev1 where g: "getopt_long pc ''t:b:f:h'' longOpts d = (opt, d1, ev1)"
    by (cases "getopt_long pc ''t:b:f:h'' longOpts d") auto
  obtain x d2 cfg2 ev where p: "parse_step K pc d cfg = (x, d2, cfg2, ev)"
    by (cases "parse_step K pc d cfg") auto
  note s = parse_step_summary[OF g p]
  note c = p[unfolded parse_step_cases[OF g, of K cfg]]
  note gr = getopt_long_ready[OF "1.prems"(1) g]
  show ?case
  proof (cases x)
    case (Return r0)
    with "1.prems"(2) p have e: "r = r0" "d' = d2"
      by (simp_all add: parseArgs_loop.simps[of K pc d cfg tr])
    from Return s(3) have nv: "\<not> value_option opt" by simp
    from Return c have d2: "d2 = d1" by (auto split: if_splits)
    from s(5) Return gr(3)[OF nv] have "(r0 = 0) = rejects pc R" by simp
    with take1_progname[OF gr(1)] show ?thesis by (simp add: e d2)
  next
    case Continue
    with "1.prems"(2) p have rec: "parseArgs_loop K pc d2 cfg2 (tr @ ev) = (r, d', cfg', tr')"
      by (simp add: parseArgs_loop.simps[of K pc d cfg tr])
    from Continue s(3) have v: "value_option opt" by simp
    from gr(2)[OF v] obtain R' where r1: "ready pc prog R' (snd (option_value d1))"
      and rj: "rejects pc R = rejects pc R'" by blast
    from "1.prems"(1) have "1 \<le> optind d" by (auto simp: ready_def getopt_start_def)
    with getopt_long_value_option[OF g v] option_value_facts(2)[OF prod.collapse[symmetric], of d1]
    have "2 \<le> optind (snd (option_value d1))" by simp
    from ready_toLower_in_place[OF r1 this] r1 s(6) Continue
    have r': "ready pc prog R' d2" by auto
    from r' have "ready pc prog R' d2 \<or> d2 = getopt_start (prog # R')" by simp
    from "1.IH"[OF p[symmetric] Continue refl refl this rec] rj show ?thesis by simp
  qed
qed

lemma parseArgs_rejects:
  assumes "parseArgs K pc (prog # args) cfg = (r, d', cfg', tr')"
  shows "progname d' = prog" "(r = 0) = rejects pc args"
  using parseArgs_loop_ready[OF _ assms[unfolded parseArgs_def], of prog args]
  by simp_all


section \<open>Rejected argument lists\<close>

text \<open>
  C5 (as stated): every argument list that contains a help request or an unrecognised
  option makes the parser print the usage and fail, and the process exit before the
  transport is opened. An element is such a request only where the parser looks for an
  option. In \<^verbatim>\<open>prog -t --help\<close> the element \<^verbatim>\<open>--help\<close> is the value of \<^verbatim>\<open>-t\<close>: the parser
  succeeds with \<^verbatim>\<open>--help\<close> as the path of the device, nothing of the usage is printed,
  \<open>main\<close> initialises the transport and opens that path, and the process ends with
  status 0 when it is interrupted.
\<close>

theorem help_taken_as_value:
  "''--help'' \<in> set [''prog'', ''-t'', ''--help'']
   \<and> fst (parseArgs linux_termbits False [''prog'', ''-t'', ''--help''] serial_device) = 1
   \<and> \<not> isl (startup linux_termbits False quiet_os [''prog'', ''-t'', ''--help''])
   \<and> path (fst (projr (startup linux_termbits False quiet_os [''prog'', ''-t'', ''--help''])))
       = ''--help''
   \<and> fd (fst (projr (startup linux_termbits False quiet_os [''prog'', ''-t'', ''--help''])))
       = 3
   \<and> filter transport_event
        (snd (projr (startup linux_termbits False quiet_os [''prog'', ''-t'', ''--help''])))
      = [Mctp ''mctp_init'', Open_rdwr ''--help'', Tcgetattr 3,
         Tcsetattr 3 \<lparr>c_iflag = 0, c_oflag = 0, c_cflag = 2224, c_lflag = 0,
                       c_ispeed = 115200, c_ospeed = 115200\<rparr>]
   \<and> Printf ''Required:\<newline>''
        \<notin> set (snd (projr (startup linux_termbits False quiet_os [''prog'', ''-t'', ''--help''])))
   \<and> map_option exit_status
        (main linux_termbits False quiet_os [''prog'', ''-t'', ''--help'']
           \<lparr>signals_at_start = [SIGINT], iterations = []\<rparr>) = Some 0"
  by (simp add: parseArgs_def parseArgs_loop.simps scan_defs Let_def main_def startup_def
      mctp_init_def platform_init_def quiet_os_def serial_device_def strncpy_path_def
      SERIAL_PATH_MAX_def linux_termbits_def init_banner_def device_banner_def raw_8N1_def
      deliver_def signalHandler_def teardown_def SIGINT_def)

text \<open>
  C5 (amended): for every argument list in which a help request or an unrecognised
  option stands where the parser looks for an option (\<open>rejects\<close>: read from the left,
  not after \<^verbatim>\<open>--\<close>, not after an operand when \<^verbatim>\<open>POSIXLY_CORRECT\<close> is set, and not taken as
  the value of the option before it), \<open>parseArgs\<close> returns 0 with the usage text, in
  which the program name is \<open>argv[0]\<close>, as the last thing written, \<open>main\<close> returns
  \<^verbatim>\<open>EXIT_FAILURE\<close>, which is not zero, before \<^verbatim>\<open>mctp_init\<close>: the trace of the whole process
  holds no call that touches a device, and the handle is still \<open>-1\<close>. For every other
  argument list the parser returns 1 and \<open>main\<close> goes on to \<^verbatim>\<open>mctp_init\<close>.
\<close>

theorem rejected_arguments_exit_before_transport:
  "(rejects pc args \<longrightarrow>
      (\<exists>out. startup K pc sys (prog # args) = Inl out
         \<and> main K pc sys (prog # args) r = Some out
         \<and> fst (parseArgs K pc (prog # args) serial_device) = 0
         \<and> suffix
              [Printf (''Usage: '' @ prog @ '' --tty <tty-path> [options]\<newline>\<newline>''),
               Printf ''Required:\<newline>'',
               Printf ''  --tty  <tty-path>       Path to serial device (e.g. /dev/ttyS0, /dev/ttyUSB0).\<newline>\<newline>'',
               Printf ''Optional:\<newline>'',
               Printf ''  --baud <baud-string>    Baud rate string (e.g. 9600, 115200). If omitted, default 115200 is used\<newline>'',
               Printf ''  --hwflow <TRUE|FALSE>   Hardware flow control. TRUE to enable RTS/CTS, FALSE (default) to disable.\<newline>'',
               Printf ''  --help                  Show this help message and exit.\<newline>\<newline>'',
               Printf ''Examples:\<newline>'',
               Printf (''  '' @ prog @ '' --tty /dev/ttyUSB0 --baud 115200 --hwflow TRUE \<newline>''),
               Printf ''Notes:\<newline>'',
               Printf ''  - The code is blocking and will run until iterrupted with SIGINT.\<newline>'',
               Printf ''\<newline>'']
              (trace out)
         \<and> exit_status out = EXIT_FAILURE \<and> exit_status out \<noteq> 0
         \<and> fd (device out) = -1
         \<and> filter transport_event (trace out) = []))
   \<and> (\<not> rejects pc args \<longrightarrow>
        fst (parseArgs K pc (prog # args) serial_device) = 1
        \<and> (\<exists>cfg2 tr2. startup K pc sys (prog # args) = Inr (cfg2, tr2)
              \<and> Mctp ''mctp_init'' \<in> set tr2))"
proof -
  let ?av = "prog # args"
  obtain ok d cfg1 tr1 where p: "parseArgs K pc ?av serial_device = (ok, d, cfg1, tr1)"
    by (cases "parseArgs K pc ?av serial_device") auto
  note s = parseArgs_summary[OF p]
  note j = parseArgs_rejects[OF p]
  have 1: "\<exists>out. startup K pc sys ?av = Inl out
         \<and> main K pc sys ?av r = Some out
         \<and> fst (parseArgs K pc ?av serial_device) = 0
         \<and> suffix (printUsage prog) (trace out)
         \<and> exit_status out = EXIT_FAILURE \<and> exit_status out \<noteq> 0
         \<and> fd (device out) = -1
         \<and> filter transport_event (trace out) = []" if "rejects pc args"
  proof -
    from j(2) that have ok: "ok = 0" by simp
    let ?out = "\<lparr>exit_status = EXIT_FAILURE, device = cfg1,
               trace = [Signal SIGINT, Signal SIGTERM] @ tr1\<rparr>"
    have st: "startup K pc sys ?av = Inl ?out"
      by (simp add: startup_unfold[OF p] ok)
    then have m: "main K pc sys ?av r = Some ?out" by (simp add: main_def)
    from s(4)[OF ok] have u: "suffix (printUsage prog) (trace ?out)"
      unfolding j(1) by (auto simp: suffix_def)
    from s(1) have f: "fd (device ?out) = -1" by (simp add: serial_device_def)
    from text_not_transport[OF s(2)] have t: "filter transport_event (trace ?out) = []"
      by simp
    have e: "exit_status ?out = EXIT_FAILURE" "exit_status ?out \<noteq> 0"
      by (simp_all add: EXIT_FAILURE_def)
    from st m u f t e show ?thesis by (intro exI[of _ ?out]) (simp add: p ok)
  qed
  have 2: "fst (parseArgs K pc ?av serial_device) = 1
        \<and> (\<exists>cfg2 tr2. startup K pc sys ?av = Inr (cfg2, tr2)
              \<and> Mctp ''mctp_init'' \<in> set tr2)" if "\<not> rejects pc args"
  proof -
    from j(2) that s(3) have ok: "ok = 1" by simp
    then show ?thesis by (simp add: p startup_unfold[OF p])
  qed
  from 1 2 show ?thesis unfolding printUsage_def by blast
qed

text \<open>
  A help request after an accepted option; an unknown short option with
  \<^verbatim>\<open>POSIXLY_CORRECT\<close> set; and three lists that are not rejected: \<^verbatim>\<open>--help\<close> as the value
  of \<^verbatim>\<open>-t\<close>, after \<^verbatim>\<open>--\<close>, and after an operand with \<^verbatim>\<open>POSIXLY_CORRECT\<close> set.
\<close>

theorem rejected_arguments_exit_before_transport_witness:
  "rejects False [''--baud'', ''9600'', ''--help'']
   \<and> (\<exists>out. main linux_termbits False quiet_os [''prog'', ''--baud'', ''9600'', ''--help'']
               \<lparr>signals_at_start = [], iterations = []\<rparr> = Some out
         \<and> exit_status out = 1 \<and> fd (device out) = -1
         \<and> filter transport_event (trace out) = []
         \<and> suffix (printUsage ''prog'') (trace out))
   \<and> rejects True [''-x'']
   \<and> (\<exists>out. main linux_termbits True quiet_os [''prog'', ''-x'']
               \<lparr>signals_at_start = [], iterations = []\<rparr> = Some out
         \<and> exit_status out = 1 \<and> fd (device out) = -1
         \<and> filter transport_event (trace out) = []
         \<and> suffix (printUsage ''prog'') (trace out))
   \<and> \<not> rejects False [''-t'', ''--help'']
   \<and> fst (parseArgs linux_termbits False [''prog'', ''-t'', ''--help''] serial_device) = 1
   \<and> \<not> rejects False [''--'', ''--help'']
   \<and> fst (parseArgs linux_termbits False [''prog'', ''--'', ''--help''] serial_device) = 1
   \<and> \<not> rejects True [''9600'', ''--help'']
   \<and> fst (parseArgs linux_termbits True [''prog'', ''9600'', ''--help''] serial_device) = 1"
proof -
  note rj = operand_def long_value_names_def
  note th = rejected_arguments_exit_before_transport
  have r1: "rejects False [''--baud'', ''9600'', ''--help'']" by (simp add: rj)
  have r2: "rejects True [''-x'']" by (simp add: rj)
  have n1: "\<not> rejects False [''-t'', ''--help'']" by (simp add: rj)
  have n2: "\<not> rejects False [''--'', ''--help'']" by (simp add: rj)
  have n3: "\<not> rejects True [''9600'', ''--help'']" by (simp add: rj)
  from th[of False "[''--baud'', ''9600'', ''--help'']" linux_termbits quiet_os "''prog''"
      "\<lparr>signals_at_start = [], iterations = []\<rparr>", THEN conjunct1, rule_format, OF r1]
  have a: "\<exists>out. main linux_termbits False quiet_os [''prog'', ''--baud'', ''9600'', ''--help'']
               \<lparr>signals_at_start = [], iterations = []\<rparr> = Some out
         \<and> exit_status out = 1 \<and> fd (device out) = -1
         \<and> filter transport_event (trace out) = []
         \<and> suffix (printUsage ''prog'') (trace out)"
    unfolding printUsage_def by (auto simp: EXIT_FAILURE_def)
  from th[of True "[''-x'']" linux_termbits quiet_os "''prog''"
      "\<lparr>signals_at_start = [], iterations = []\<rparr>", THEN conjunct1, rule_format, OF r2]
  have b: "\<exists>out. main linux_termbits True quiet_os [''prog'', ''-x'']
               \<lparr>signals_at_start = [], iterations = []\<rparr> = Some out
         \<and> exit_status out = 1 \<and> fd (device out) = -1
         \<and> filter transport_event (trace out) = []
         \<and> suffix (printUsage ''prog'') (trace out)"
    unfolding printUsage_def by (auto simp: EXIT_FAILURE_def)
  from th[of False "[''-t'', ''--help'']" linux_termbits quiet_os "''prog''"
      "\<lparr>signals_at_start = [], iterations = []\<rparr>", THEN conjunct2, rule_format, OF n1]
  have c: "fst (parseArgs linux_termbits False [''prog'', ''-t'', ''--help''] serial_device) = 1"
    by simp
  from th[of False "[''--'', ''--help'']" linux_termbits quiet_os "''prog''"
      "\<lparr>signals_at_start = [], iterations = []\<rparr>", THEN conjunct2, rule_format, OF n2]
  have d: "fst (parseArgs linux_termbits False [''prog'', ''--'', ''--help''] serial_device) = 1"
    by simp
  from th[of True "[''9600'', ''--help'']" linux_termbits quiet_os "''prog''"
      "\<lparr>signals_at_start = [], iterations = []\<rparr>", THEN conjunct2, rule_format, OF n3]
  have e: "fst (parseArgs linux_termbits True [''prog'', ''9600'', ''--help''] serial_device) = 1"
    by simp
  from r1 r2 n1 n2 n3 a b c d e show ?thesis by (intro conjI) assumption+
qed

section \<open>Interrupt and teardown\<close>

lemma fold_signalHandler:
  "fold signalHandler sigs st =
     ((if sigs = [] then fst st else 1),
      snd st @ map (\<lambda>s. Printf (''\<newline>Caught signal '' @ dec s @ '', cleaning up...\<newline>''))
                 sigs)"
  by (induction sigs arbitrary: st) (simp_all add: signalHandler_def)

lemma deliver_summary:
  assumes "deliver sigs (i, tr) = (i1, tr1)"
  shows "i1 = (if sigs = [] then i else 1)" "\<exists>ev. tr1 = tr @ ev \<and> list_all is_text ev"
proof -
  let ?ev = "map (\<lambda>s. Printf (''\<newline>Caught signal '' @ dec s @ '', cleaning up...\<newline>''))
                 sigs"
  from assms have a: "i1 = (if sigs = [] then i else 1)" and b: "tr1 = tr @ ?ev"
    by (auto simp: deliver_def fold_signalHandler)
  show "i1 = (if sigs = [] then i else 1)" by (rule a)
  have "list_all is_text ?ev" by (induction sigs) simp_all
  with b show "\<exists>ev. tr1 = tr @ ev \<and> list_all is_text ev" by blast
qed

lemma loop_body_no_close: "filter is_close (loop_body K it) = []"
  by (simp add: loop_body_def)

lemma control_loop_interrupted:
  "interrupted \<noteq> 0 \<Longrightarrow> control_loop K its interrupted n tr = Some (n, tr)"
  by (cases its) simp_all

text \<open>One turn with the flag clear.\<close>

lemma control_loop_turn:
  "control_loop K (it # its) 0 n tr =
     control_loop K its (if signals it = [] then 0 else 1) (Suc n)
       (snd (deliver (signals it) (0, tr @ loop_body K it)))"
proof -
  obtain i1 tr1 where d: "deliver (signals it) (0, tr @ loop_body K it) = (i1, tr1)"
    by (cases "deliver (signals it) (0, tr @ loop_body K it)") auto
  from deliver_summary(1)[OF d] d show ?thesis by simp
qed

lemma control_loop_no_close:
  "control_loop K its i n tr = Some (m, tr1) \<Longrightarrow> filter is_close tr1 = filter is_close tr"
proof (induction its arbitrary: i n tr)
  case Nil
  then show ?case by (simp split: if_splits)
next
  case (Cons it its)
  show ?case
  proof (cases "i = 0")
    case False
    with Cons.prems show ?thesis by simp
  next
    case True
    obtain i1 tr2 where d: "deliver (signals it) (0, tr @ loop_body K it) = (i1, tr2)"
      by (cases "deliver (signals it) (0, tr @ loop_body K it)") auto
    from deliver_summary(2)[OF d] obtain ev where
      ev: "tr2 = (tr @ loop_body K it) @ ev" "list_all is_text ev" by blast
    from Cons.prems True d have "control_loop K its i1 (Suc n) tr2 = Some (m, tr1)" by simp
    from Cons.IH[OF this] ev text_not_close[OF ev(2)] show ?thesis
      by (simp add: loop_body_no_close)
  qed
qed

lemma control_loop_quiet_turns:
  "list_all (\<lambda>it. signals it = []) pre \<Longrightarrow>
     control_loop K (pre @ rest) 0 n tr =
     control_loop K rest 0 (n + length pre) (tr @ concat (map (loop_body K) pre))"
proof (induction pre arbitrary: n tr)
  case Nil
  then show ?case by simp
next
  case (Cons it pre)
  then have q: "signals it = []" and r: "list_all (\<lambda>it. signals it = []) pre" by simp_all
  have "control_loop K ((it # pre) @ rest) 0 n tr
      = control_loop K (pre @ rest) 0 (Suc n) (tr @ loop_body K it)"
    using control_loop_turn[of K it "pre @ rest" n tr] q by (simp add: deliver_def)
  with Cons.IH[OF r, of "Suc n" "tr @ loop_body K it"] show ?case by simp
qed

lemma control_loop_signal:
  assumes "list_all (\<lambda>it. signals it = []) pre" "signals it \<noteq> []"
  shows "control_loop K (pre @ it # post) 0 n tr =
     Some (n + length pre + 1,
           snd (deliver (signals it)
                  (0, tr @ concat (map (loop_body K) pre) @ loop_body K it)))"
  using control_loop_turn[of K it post "n + length pre" "tr @ concat (map (loop_body K) pre)"]
    assms(2)
  by (simp add: control_loop_quiet_turns[OF assms(1)] control_loop_interrupted)

lemma control_loop_ends:
  "list_ex (\<lambda>it. signals it \<noteq> []) its \<Longrightarrow> \<exists>m tr1. control_loop K its 0 n tr = Some (m, tr1)"
proof (induction its arbitrary: n tr)
  case Nil
  then show ?case by simp
next
  case (Cons it its)
  show ?case
  proof (cases "signals it = []")
    case True
    with Cons.prems have "list_ex (\<lambda>it. signals it \<noteq> []) its" by simp
    from Cons.IH[OF this] show ?thesis
      using control_loop_turn[of K it its n tr] True by (simp add: deliver_def)
  next
    case False
    then show ?thesis
      using control_loop_turn[of K it its n tr] by (simp add: control_loop_interrupted)
  qed
qed

lemma teardown_unfold:
  "teardown cfg = (cfg\<lparr>fd := -1\<rparr>, if fd cfg = -1 then [] else [Close (fd cfg)])"
  by (simp add: teardown_def)

lemma open_init_no_close:
  assumes "fd cfg = -1" "fd (fst (platform_init K sys cfg)) \<noteq> -1"
  shows "filter is_close (snd (platform_init K sys cfg)) = []"
proof (cases "path cfg = []")
  case True
  from assms show ?thesis unfolding platform_init_pty[OF True]
    by (auto simp: Let_def init_banner_def split: if_splits option.splits)
next
  case False
  from assms show ?thesis unfolding platform_init_tty[OF False]
    by (auto simp: Let_def init_banner_def split: if_splits prod.splits)
qed

lemma startup_open_no_close:
  assumes "startup K pc sys av = Inr (cfg2, tr2)" "fd cfg2 \<noteq> -1"
  shows "filter is_close tr2 = []"
proof -
  obtain ok d cfg1 tr1 where p: "parseArgs K pc av serial_device = (ok, d, cfg1, tr1)"
    by (cases "parseArgs K pc av serial_device") auto
  from parseArgs_summary(1,2)[OF p] have f: "fd cfg1 = -1" and t: "list_all is_text tr1"
    by (simp_all add: serial_device_def)
  from assms(1) have c: "cfg2 = fst (platform_init K sys cfg1)"
    and tr: "tr2 = [Signal SIGINT, Signal SIGTERM] @ tr1 @ device_banner cfg1
             @ Mctp ''mctp_init'' # snd (platform_init K sys cfg1)"
    unfolding startup_unfold[OF p] by (simp_all split: if_splits)
  from open_init_no_close[OF f] assms(2) c
  have "filter is_close (snd (platform_init K sys cfg1)) = []" by simp
  with text_not_close[OF t] text_not_close[OF device_banner_text[of cfg1]]
  show ?thesis unfolding tr by simp
qed

text \<open>
  C1: the loop reads the flag once per turn. If the first signal is delivered during
  some turn, the loop ends when that turn ends: the turns described after it are never
  made, and the number of turns made is the number of quiet turns plus one. If the flag
  is already set at the test, no turn is made. Teardown closes the handle once and sets
  it to \<open>-1\<close> when it is open, and does nothing when it is \<open>-1\<close> already, so a second
  teardown is a no-op. In a run of the process that gets past parsing and receives a
  signal, \<open>main\<close> returns 0 with the handle at \<open>-1\<close>; if the transport was open, the whole
  trace holds exactly one \<^verbatim>\<open>close\<close>, of that handle, as its last event, and otherwise
  teardown adds no \<^verbatim>\<open>close\<close> to the ones of the failed initialisation.
\<close>

theorem interrupt_ends_loop_and_closes_once:
  "(list_all (\<lambda>it. signals it = []) pre \<and> signals it \<noteq> [] \<longrightarrow>
      control_loop K (pre @ it # post) 0 0 tr = control_loop K (pre @ [it]) 0 0 tr
      \<and> (\<exists>tr1. control_loop K (pre @ it # post) 0 0 tr = Some (length pre + 1, tr1)))
   \<and> (interrupted \<noteq> 0 \<longrightarrow> control_loop K its interrupted 0 tr = Some (0, tr))
   \<and> teardown cfg = (cfg\<lparr>fd := -1\<rparr>, if fd cfg = -1 then [] else [Close (fd cfg)])
   \<and> teardown (fst (teardown cfg)) = (fst (teardown cfg), [])
   \<and> (startup K pc sys av = Inr (cfg2, tr2)
        \<and> (signals_at_start r \<noteq> [] \<or> list_ex (\<lambda>it. signals it \<noteq> []) (iterations r)) \<longrightarrow>
        (\<exists>out. main K pc sys av r = Some out \<and> exit_status out = 0 \<and> fd (device out) = -1
           \<and> (fd cfg2 \<noteq> -1 \<longrightarrow>
                 filter is_close (trace out) = [Close (fd cfg2)]
                 \<and> last (trace out) = Close (fd cfg2))
           \<and> (fd cfg2 = -1 \<longrightarrow> filter is_close (trace out) = filter is_close tr2)))"
proof (intro conjI impI)
  assume a: "list_all (\<lambda>it. signals it = []) pre \<and> signals it \<noteq> []"
  then have q: "list_all (\<lambda>it. signals it = []) pre" and s: "signals it \<noteq> []" by simp_all
  from control_loop_signal[OF q s, of K post 0 tr] control_loop_signal[OF q s, of K "[]" 0 tr]
  show "control_loop K (pre @ it # post) 0 0 tr = control_loop K (pre @ [it]) 0 0 tr"
    by simp
  from control_loop_signal[OF q s, of K post 0 tr]
  show "\<exists>tr1. control_loop K (pre @ it # post) 0 0 tr = Some (length pre + 1, tr1)"
    by simp
next
  assume "interrupted \<noteq> 0"
  then show "control_loop K its interrupted 0 tr = Some (0, tr)"
    by (rule control_loop_interrupted)
next
  show "teardown cfg = (cfg\<lparr>fd := -1\<rparr>, if fd cfg = -1 then [] else [Close (fd cfg)])"
    by (rule teardown_unfold)
next
  show "teardown (fst (teardown cfg)) = (fst (teardown cfg), [])"
    by (simp add: teardown_def)
next
  assume a: "startup K pc sys av = Inr (cfg2, tr2)
        \<and> (signals_at_start r \<noteq> [] \<or> list_ex (\<lambda>it. signals it \<noteq> []) (iterations r))"
  then have st: "startup K pc sys av = Inr (cfg2, tr2)"
    and sg: "signals_at_start r \<noteq> [] \<or> list_ex (\<lambda>it. signals it \<noteq> []) (iterations r)"
    by simp_all
  obtain i tr3 where d: "deliver (signals_at_start r) (0, tr2) = (i, tr3)"
    by (cases "deliver (signals_at_start r) (0, tr2)") auto
  from deliver_summary[OF d] obtain ev where
    i: "i = (if signals_at_start r = [] then 0 else 1)"
    and ev: "tr3 = tr2 @ ev" "list_all is_text ev" by blast
  have "\<exists>m tr4. control_loop K (iterations r) i 0 tr3 = Some (m, tr4)"
  proof (cases "signals_at_start r = []")
    case True
    with sg i control_loop_ends[of "iterations r" K 0 tr3] show ?thesis by simp
  next
    case False
    with i control_loop_interrupted[of i K "iterations r" 0 tr3] show ?thesis by simp
  qed
  then obtain m tr4 where l: "control_loop K (iterations r) i 0 tr3 = Some (m, tr4)"
    by blast
  from control_loop_no_close[OF l] ev text_not_close[OF ev(2)]
  have c4: "filter is_close tr4 = filter is_close tr2" by simp
  let ?out = "\<lparr>exit_status = 0, device = cfg2\<lparr>fd := -1\<rparr>,
               trace = tr4 @ (if fd cfg2 = -1 then [] else [Close (fd cfg2)])\<rparr>"
  have m: "main K pc sys av r = Some ?out"
    by (simp add: main_def st d l teardown_unfold)
  have o: "filter is_close (trace ?out) = [Close (fd cfg2)]
           \<and> last (trace ?out) = Close (fd cfg2)" if "fd cfg2 \<noteq> -1"
    using that c4 startup_open_no_close[OF st that] by simp
  have n: "filter is_close (trace ?out) = filter is_close tr2" if "fd cfg2 = -1"
    using that c4 by simp
  from m o n
  show "\<exists>out. main K pc sys av r = Some out \<and> exit_status out = 0 \<and> fd (device out) = -1
           \<and> (fd cfg2 \<noteq> -1 \<longrightarrow>
                 filter is_close (trace out) = [Close (fd cfg2)]
                 \<and> last (trace out) = Close (fd cfg2))
           \<and> (fd cfg2 = -1 \<longrightarrow> filter is_close (trace out) = filter is_close tr2)"
    by (intro exI[of _ ?out]) simp
qed

text \<open>A turn without a signal and a turn during which \<^verbatim>\<open>SIGINT\<close> arrives, for the example.\<close>

definition idle_turn :: iteration where
  "idle_turn = \<lparr>packet_available = False, control_packet = False, pldm_packet = False,
                 signals = []\<rparr>"

definition sigint_turn :: iteration where
  "sigint_turn = \<lparr>packet_available = True, control_packet = True, pldm_packet = False,
                   signals = [SIGINT]\<rparr>"

text \<open>
  Two idle turns, a turn with \<^verbatim>\<open>SIGINT\<close> and one more turn described: three turns are
  made, the simulated device on descriptor 3 is closed once.
\<close>

theorem interrupt_ends_loop_and_closes_once_witness:
  "control_loop linux_termbits [idle_turn, idle_turn, sigint_turn, idle_turn] 0 0 []
     = control_loop linux_termbits [idle_turn, idle_turn, sigint_turn] 0 0 []
   \<and> (\<exists>tr1. control_loop linux_termbits [idle_turn, idle_turn, sigint_turn, idle_turn] 0 0 []
         = Some (3, tr1))
   \<and> control_loop linux_termbits [idle_turn] 1 0 [] = Some (0, [])
   \<and> teardown (serial_device\<lparr>fd := 3\<rparr>) = (serial_device, [Close 3])
   \<and> teardown serial_device = (serial_device, [])
   \<and> (\<exists>out. main linux_termbits False quiet_os [''prog'']
               \<lparr>signals_at_start = [],
                iterations = [idle_turn, idle_turn, sigint_turn, idle_turn]\<rparr> = Some out
         \<and> exit_status out = 0 \<and> fd (device out) = -1
         \<and> filter is_close (trace out) = [Close 3] \<and> last (trace out) = Close 3)"
proof -
  let ?r = "\<lparr>signals_at_start = [],
             iterations = [idle_turn, idle_turn, sigint_turn, idle_turn]\<rparr>"
  have p: "parseArgs linux_termbits False [''prog''] serial_device
      = (1, fst (snd (parseArgs linux_termbits False [''prog''] serial_device)),
         serial_device, [])"
    by (simp add: parseArgs_def parseArgs_loop.simps scan_defs Let_def)
  have "\<exists>cfg2 tr2. startup linux_termbits False quiet_os [''prog''] = Inr (cfg2, tr2)
          \<and> fd cfg2 = 3"
    unfolding startup_unfold[OF p]
    by (simp add: platform_init_def serial_device_def quiet_os_def Let_def)
  then obtain cfg2 tr2 where
    st: "startup linux_termbits False quiet_os [''prog''] = Inr (cfg2, tr2)"
    and f: "fd cfg2 = 3" by blast
  have q: "list_all (\<lambda>it. signals it = []) [idle_turn, idle_turn]
           \<and> signals sigint_turn \<noteq> []"
    by (simp add: idle_turn_def sigint_turn_def)
  have s: "signals_at_start ?r \<noteq> [] \<or> list_ex (\<lambda>it. signals it \<noteq> []) (iterations ?r)"
    by (simp add: idle_turn_def sigint_turn_def)
  note t = interrupt_ends_loop_and_closes_once[where pre="[idle_turn, idle_turn]"
      and it=sigint_turn and post="[idle_turn]" and K=linux_termbits and tr="[]"
      and interrupted=1 and its="[idle_turn]" and cfg="serial_device\<lparr>fd := 3\<rparr>"
      and pc=False and sys=quiet_os and av="[''prog'']" and ?cfg2.0=cfg2 and ?tr2.0=tr2
      and r="?r"]
  note t0 = interrupt_ends_loop_and_closes_once[where cfg=serial_device]
  have n: "length [idle_turn, idle_turn] + 1 = 3" by simp
  note c = t[THEN conjunct1, rule_format, OF q, unfolded n append_Cons append_Nil]
  note 1 = c[THEN conjunct1] and 2 = c[THEN conjunct2]
  from t[THEN conjunct2, THEN conjunct1]
  have 3: "control_loop linux_termbits [idle_turn] 1 0 [] = Some (0, [])"
    by (simp del: control_loop.simps)
  from t[THEN conjunct2, THEN conjunct2, THEN conjunct1]
  have 4: "teardown (serial_device\<lparr>fd := 3\<rparr>) = (serial_device, [Close 3])"
    by (simp add: serial_device_def)
  from t0[THEN conjunct2, THEN conjunct2, THEN conjunct1]
  have 5: "teardown serial_device = (serial_device, [])"
    by (simp add: serial_device_def)
  from t[THEN conjunct2, THEN conjunct2, THEN conjunct2, THEN conjunct2, rule_format,
      OF conjI[OF st s]] f
  have 6: "\<exists>out. main linux_termbits False quiet_os [''prog''] ?r = Some out
         \<and> exit_status out = 0 \<and> fd (device out) = -1
         \<and> filter is_close (trace out) = [Close 3] \<and> last (trace out) = Close 3"
    by auto
  from 1 2 3 4 5 6 show ?thesis by (intro conjI) assumption+
qed

end
